theory Spec2Isabelle
  imports Complex_Main "HOL-Library.Log_Nat"
begin

section \<open>The voxel grid: \<^verbatim>\<open>UnpackedSchematic\<close>\<close>

text \<open>
  The source is \<^verbatim>\<open>src/GeometryPlacer.ts\<close>. Block types, coordinates and sizes are
  JavaScript numbers used as integers; they are modelled as \<open>int\<close>. The values stored in
  \<^verbatim>\<open>blockCounts\<close> are numbers as well, but the source can store the result of
  \<^verbatim>\<open>undefined + 1\<close> there, which is \<^verbatim>\<open>NaN\<close>, so a count is either an integer or
  \<^verbatim>\<open>NaN\<close>.
\<close>

datatype jsnum = Num int | NaN

text \<open>\<^verbatim>\<open>blockCounts.get(type)! + 1\<close>: a missing key reads \<^verbatim>\<open>undefined\<close>, and
  \<^verbatim>\<open>undefined + 1\<close> as well as \<^verbatim>\<open>NaN + 1\<close> are \<^verbatim>\<open>NaN\<close>.\<close>

fun plus1 :: "jsnum option \<Rightarrow> jsnum" where
  "plus1 (Some (Num n)) = Num (n + 1)"
| "plus1 (Some NaN) = NaN"
| "plus1 None = NaN"

text \<open>A JavaScript \<^verbatim>\<open>Map\<close> iterates its keys in the order of their first insertion, and
  \<^verbatim>\<open>set\<close> on a key that is present keeps its place: an association list with unique keys.\<close>

type_synonym ('k, 'v) jsmap = "('k \<times> 'v) list"

definition map_get :: "'k \<Rightarrow> ('k, 'v) jsmap \<Rightarrow> 'v option" where
  "map_get k m = map_of m k"

definition map_has :: "'k \<Rightarrow> ('k, 'v) jsmap \<Rightarrow> bool" where
  "map_has k m = (map_get k m \<noteq> None)"

fun map_set :: "'k \<Rightarrow> 'v \<Rightarrow> ('k, 'v) jsmap \<Rightarrow> ('k, 'v) jsmap" where
  "map_set k v [] = [(k, v)]"
| "map_set k v ((k', v') # m) = (if k = k' then (k, v) # m else (k', v') # map_set k v m)"

definition map_keys :: "('k, 'v) jsmap \<Rightarrow> 'k list" where
  "map_keys m = map fst m"

text \<open>The face mapping of one block type, in the iteration order of \<^verbatim>\<open>for (key in ...)\<close>.\<close>

type_synonym faceMapping = "(string \<times> int) list"

datatype error = BlockOutOfBounds | SchematicFull | TextureDataNotSet | TypeError

text \<open>The array \<^verbatim>\<open>schematic\<close> can have holes (an assignment past its end extends it);
  a hole reads \<^verbatim>\<open>undefined\<close>, modelled as \<open>None\<close>.\<close>

record UnpackedSchematic =
  sizeX :: int
  sizeY :: int
  sizeZ :: int
  textureCount :: "int option"
  textureData :: "string option"
  textureDictionary :: "(int \<rightharpoonup> faceMapping) option"
  schematic :: "int option list"
  blockCounts :: "(int, jsnum) jsmap"

definition new_schematic :: "int \<Rightarrow> int \<Rightarrow> int \<Rightarrow> UnpackedSchematic" where
  "new_schematic sx sy sz =
     \<lparr>sizeX = sx, sizeY = sy, sizeZ = sz, textureCount = None, textureData = None,
      textureDictionary = None, schematic = [], blockCounts = []\<rparr>"

definition getSchematicLocation :: "UnpackedSchematic \<Rightarrow> int \<Rightarrow> int \<Rightarrow> int \<Rightarrow> int" where
  "getSchematicLocation s x y z = x + y * sizeX s + z * sizeX s * sizeY s"

text \<open>The first two statements of \<^verbatim>\<open>setBlock\<close> and of \<^verbatim>\<open>pushBlock\<close>.\<close>

definition countBlock :: "int \<Rightarrow> (int, jsnum) jsmap \<Rightarrow> (int, jsnum) jsmap" where
  "countBlock type m =
     (let m1 = (if \<not> map_has type m \<and> type \<noteq> 0 then map_set type (Num 0) m else m)
      in map_set type (plus1 (map_get type m1)) m1)"

text \<open>\<^verbatim>\<open>a[i] = v\<close> on a JavaScript array.\<close>

definition array_set :: "'a option list \<Rightarrow> nat \<Rightarrow> 'a \<Rightarrow> 'a option list" where
  "array_set a i v =
     (if i < length a then a[i := Some v]
      else a @ replicate (i - length a) None @ [Some v])"

text \<open>A method that throws after it has changed the object returns the error together with
  the changed object.\<close>

definition setBlock ::
  "int \<Rightarrow> int \<Rightarrow> int \<Rightarrow> int \<Rightarrow> UnpackedSchematic \<Rightarrow> (error + unit) \<times> UnpackedSchematic" where
  "setBlock type x y z s =
     (let s1 = s\<lparr>blockCounts := countBlock type (blockCounts s)\<rparr>
      in if x < 0 \<or> x \<ge> sizeX s1 \<or> y < 0 \<or> y \<ge> sizeY s1 \<or> z < 0 \<or> z \<ge> sizeZ s1
         then (Inl BlockOutOfBounds, s1)
         else (Inr (),
               s1\<lparr>schematic :=
                    array_set (schematic s1) (nat (getSchematicLocation s1 x y z)) type\<rparr>))"

definition pushBlock :: "int \<Rightarrow> UnpackedSchematic \<Rightarrow> (error + unit) \<times> UnpackedSchematic" where
  "pushBlock type s =
     (let s1 = s\<lparr>blockCounts := countBlock type (blockCounts s)\<rparr>
      in if int (length (schematic s1)) > sizeX s1 * sizeY s1 * sizeZ s1
         then (Inl SchematicFull, s1)
         else (Inr (), s1\<lparr>schematic := schematic s1 @ [Some type]\<rparr>))"

definition setTextureData ::
  "string \<Rightarrow> int \<Rightarrow> (int \<rightharpoonup> faceMapping) \<Rightarrow> UnpackedSchematic \<Rightarrow> UnpackedSchematic" where
  "setTextureData texture textureCount' textureMapping s =
     s\<lparr>textureData := Some texture, textureCount := Some textureCount',
       textureDictionary := Some textureMapping\<rparr>"

subsection \<open>Sequences of calls\<close>

datatype call = SetBlock int int int int | PushBlock int

fun call_type :: "call \<Rightarrow> int" where
  "call_type (SetBlock t x y z) = t"
| "call_type (PushBlock t) = t"

fun do_call :: "call \<Rightarrow> UnpackedSchematic \<Rightarrow> (error + unit) \<times> UnpackedSchematic" where
  "do_call (SetBlock t x y z) s = setBlock t x y z s"
| "do_call (PushBlock t) s = pushBlock t s"

text \<open>The grid after a sequence of calls, each exception caught by the caller (a call that
  throws leaves the object as it was at the \<^verbatim>\<open>throw\<close>), and whether no call of the
  sequence threw.\<close>

fun run_calls :: "call list \<Rightarrow> UnpackedSchematic \<Rightarrow> UnpackedSchematic" where
  "run_calls [] s = s"
| "run_calls (c # cs) s = run_calls cs (snd (do_call c s))"

fun all_succeed :: "call list \<Rightarrow> UnpackedSchematic \<Rightarrow> bool" where
  "all_succeed [] s = True"
| "all_succeed (c # cs) s = (fst (do_call c s) = Inr () \<and> all_succeed cs (snd (do_call c s)))"

definition calls_of :: "int \<Rightarrow> call list \<Rightarrow> nat" where
  "calls_of t cs = length (filter (\<lambda>c. call_type c = t) cs)"

section \<open>The placer: \<^verbatim>\<open>GeometryPlacer\<close>\<close>

subsection \<open>Floating-point numbers\<close>

text \<open>
  The UV coordinates are computed in double precision and stored in a \<^verbatim>\<open>Float32Array\<close>.
  A floating-point value is a rational number, an infinity or \<^verbatim>\<open>NaN\<close>; the two zeros are
  not told apart (no operation of the source distinguishes them). \<open>round_float p emin emax\<close>
  rounds a rational number to the nearest value of the binary format with \<open>p\<close> significant
  bits and exponents from \<open>emin\<close> to \<open>emax\<close>, ties to the even significand, with gradual
  underflow and with overflow to an infinity, as IEEE 754 prescribes for every operation.
\<close>

datatype jsfloat = Fin rat | PosInf | NegInf | NaNf

text \<open>The exponent \<open>e\<close> with \<open>2 ^ e \<le> q < 2 ^ (e + 1)\<close>, for a positive \<open>q\<close>: the bit lengths of
  numerator and denominator give it up to one.\<close>

definition nearest_exponent :: "rat \<Rightarrow> int \<Rightarrow> int" where
  "nearest_exponent q e = (if 2 powi e \<le> q then e else e - 1)"

definition ilog2 :: "rat \<Rightarrow> int" where
  "ilog2 q = nearest_exponent q (bitlen (fst (quotient_of q)) - bitlen (snd (quotient_of q)))"

text \<open>Rounding to the nearest integer, a tie to the even one: \<open>f\<close> is the floor and \<open>d\<close> the
  fractional part.\<close>

definition half_even :: "int \<Rightarrow> rat \<Rightarrow> int" where
  "half_even f d =
     (if d < 1 / 2 then f else if d > 1 / 2 then f + 1 else if even f then f else f + 1)"

definition round_half_even :: "rat \<Rightarrow> int" where
  "round_half_even m = half_even \<lfloor>m\<rfloor> (m - of_int \<lfloor>m\<rfloor>)"

text \<open>A rounded magnitude \<open>v\<close> beyond the largest exponent becomes an infinity.\<close>

definition overflow_or :: "int \<Rightarrow> bool \<Rightarrow> rat \<Rightarrow> jsfloat" where
  "overflow_or emax positive v =
     (if v > 0 \<and> ilog2 v > emax then (if positive then PosInf else NegInf)
      else Fin (if positive then v else - v))"

definition round_to_ulp :: "int \<Rightarrow> rat \<Rightarrow> rat \<Rightarrow> jsfloat" where
  "round_to_ulp emax q ulp =
     overflow_or emax (q > 0) (of_int (round_half_even (\<bar>q\<bar> / ulp)) * ulp)"

definition round_float :: "nat \<Rightarrow> int \<Rightarrow> int \<Rightarrow> rat \<Rightarrow> jsfloat" where
  "round_float p emin emax q =
     (if q = 0 then Fin 0
      else round_to_ulp emax q (2 powi (max (ilog2 \<bar>q\<bar>) emin - int p + 1)))"

definition to_double :: "rat \<Rightarrow> jsfloat" where
  "to_double = round_float 53 (- 1022) 1023"

definition to_float32 :: "rat \<Rightarrow> jsfloat" where
  "to_float32 = round_float 24 (- 126) 127"

text \<open>The operators \<^verbatim>\<open>/\<close>, \<^verbatim>\<open>+\<close> and \<^verbatim>\<open>-\<close> of JavaScript on numbers. The operands of the
  division are numbers used as integers (a tile index plus one, the tile count), taken to
  be exact.\<close>

definition js_div :: "int \<Rightarrow> int \<Rightarrow> jsfloat" where
  "js_div a b =
     (if b = 0 then (if a = 0 then NaNf else if a > 0 then PosInf else NegInf)
      else to_double (of_int a / of_int b))"

fun js_add :: "jsfloat \<Rightarrow> jsfloat \<Rightarrow> jsfloat" where
  "js_add (Fin a) (Fin b) = to_double (a + b)"
| "js_add NaNf y = NaNf"
| "js_add x NaNf = NaNf"
| "js_add PosInf NegInf = NaNf"
| "js_add NegInf PosInf = NaNf"
| "js_add PosInf y = PosInf"
| "js_add x PosInf = PosInf"
| "js_add NegInf y = NegInf"
| "js_add x NegInf = NegInf"

fun js_neg :: "jsfloat \<Rightarrow> jsfloat" where
  "js_neg (Fin a) = Fin (- a)"
| "js_neg PosInf = NegInf"
| "js_neg NegInf = PosInf"
| "js_neg NaNf = NaNf"

definition js_sub :: "jsfloat \<Rightarrow> jsfloat \<Rightarrow> jsfloat" where
  "js_sub x y = js_add x (js_neg y)"

text \<open>The value an element of a \<^verbatim>\<open>Float32Array\<close> holds after a number is assigned to
  it.\<close>

fun float32_store :: "jsfloat \<Rightarrow> jsfloat" where
  "float32_store (Fin q) = to_float32 q"
| "float32_store PosInf = PosInf"
| "float32_store NegInf = NegInf"
| "float32_store NaNf = NaNf"

subsection \<open>The UV tables\<close>

datatype Offset = TOP | NORTH | EAST | SOUTH | WEST | BOTTOM

fun offset_of :: "Offset \<Rightarrow> nat" where
  "offset_of TOP = 16"
| "offset_of NORTH = 0"
| "offset_of EAST = 8"
| "offset_of SOUTH = 32"
| "offset_of WEST = 40"
| "offset_of BOTTOM = 24"

text \<open>The array \<^verbatim>\<open>uvs\<close> of \<^verbatim>\<open>mapTextures\<close>, computed in double precision from the tile
  index \<^verbatim>\<open>stride\<close>; \<open>textureAmount\<close> is \<^verbatim>\<open>this.schematic.getTextureCount()\<close>, which
  \<^verbatim>\<open>create\<close> has checked.\<close>

definition uv_array :: "jsfloat \<Rightarrow> jsfloat \<Rightarrow> jsfloat \<Rightarrow> jsfloat \<Rightarrow> jsfloat list" where
  "uv_array u0 v0 u1 v1 = [u1, v1, u0, v1, u1, v0, u0, v0]"

definition uvs_of :: "int \<Rightarrow> int \<Rightarrow> jsfloat list" where
  "uvs_of textureAmount stride =
     uv_array (js_add (js_div (stride + 1) textureAmount) (to_double (1 / 100000)))
              (Fin 0)
              (js_sub (js_div (stride + 1 + 1) textureAmount) (to_double (1 / 100000)))
              (Fin 1)"

text \<open>\<^verbatim>\<open>mapTextures(mapping, stride, offset)\<close>: a value is stored, as a 32-bit float, where
  the element still is \<open>-1\<close>.\<close>

definition mapTextures :: "int \<Rightarrow> jsfloat list \<Rightarrow> int \<Rightarrow> nat \<Rightarrow> jsfloat list" where
  "mapTextures textureAmount mapping stride offset =
     fold (\<lambda>i m. if m ! (offset + i) = Fin (- 1)
                  then m[offset + i := float32_store (uvs_of textureAmount stride ! i)] else m)
       [0..<8] mapping"

text \<open>The body of the \<^verbatim>\<open>switch (key)\<close> in \<^verbatim>\<open>unwrapUVs\<close>; the case \<^verbatim>\<open>"all"\<close> has no
  \<^verbatim>\<open>break\<close> and falls through into the case \<^verbatim>\<open>"side"\<close>.\<close>

definition switch_key :: "int \<Rightarrow> string \<Rightarrow> int \<Rightarrow> jsfloat list \<Rightarrow> jsfloat list" where
  "switch_key n key val m =
     (if key = ''all'' then
        (let m1 = mapTextures n m val (offset_of TOP);
             m2 = mapTextures n m1 val (offset_of BOTTOM);
             m3 = mapTextures n m2 val (offset_of NORTH);
             m4 = mapTextures n m3 val (offset_of EAST);
             m5 = mapTextures n m4 val (offset_of SOUTH)
         in mapTextures n m5 val (offset_of WEST))
      else if key = ''side'' then
        (let m1 = mapTextures n m val (offset_of NORTH);
             m2 = mapTextures n m1 val (offset_of EAST);
             m3 = mapTextures n m2 val (offset_of SOUTH)
         in mapTextures n m3 val (offset_of WEST))
      else if key = ''top'' then mapTextures n m val (offset_of TOP)
      else if key = ''bottom'' then mapTextures n m val (offset_of BOTTOM)
      else if key = ''end'' then
        (let m1 = mapTextures n m val (offset_of TOP)
         in mapTextures n m1 val (offset_of BOTTOM))
      else if key = ''front'' \<or> key = ''north'' then mapTextures n m val (offset_of NORTH)
      else if key = ''east'' then mapTextures n m val (offset_of EAST)
      else if key = ''south'' then mapTextures n m val (offset_of SOUTH)
      else if key = ''west'' then mapTextures n m val (offset_of WEST)
      else m)"

text \<open>The loop that fills the empty spots of the array (0..47).\<close>

definition fill_empty :: "jsfloat list \<Rightarrow> jsfloat list" where
  "fill_empty uvMappedFaces =
     fold (\<lambda>i m. if m ! i = Fin (- 1) then m[i := Fin (1 / 2)] else m) [0..<48] uvMappedFaces"

text \<open>The table \<^verbatim>\<open>unwrapUVs\<close> computes when the cache has none for the block type.\<close>

definition computeUVs :: "int \<Rightarrow> faceMapping \<Rightarrow> jsfloat list" where
  "computeUVs n blockUVData =
     fill_empty
       (fold (\<lambda>(key, val) m. switch_key n key val m) blockUVData (replicate 48 (Fin (- 1))))"

record GeometryPlacer =
  uvCache :: "int \<rightharpoonup> jsfloat list"

definition new_placer :: GeometryPlacer where
  "new_placer = \<lparr>uvCache = Map.empty\<rparr>"

text \<open>
  \<^verbatim>\<open>unwrapUVs(blockType)\<close>. The tile count \<open>n\<close> and the dictionary \<open>dict\<close> are those of
  \<^verbatim>\<open>this.schematic\<close>. \<^verbatim>\<open>Object.keys(undefined)\<close> throws a \<^verbatim>\<open>TypeError\<close>; the result
  \<open>Inr None\<close> is the \<^verbatim>\<open>return undefined\<close> for an entry with no key.
\<close>

definition unwrapUVs ::
  "int \<Rightarrow> (int \<rightharpoonup> faceMapping) \<Rightarrow> GeometryPlacer \<Rightarrow> int
   \<Rightarrow> (error + jsfloat list option) \<times> GeometryPlacer" where
  "unwrapUVs n dict p blockType =
     (case uvCache p blockType of
        Some cached \<Rightarrow> (Inr (Some cached), p)
      | None \<Rightarrow>
          (case dict blockType of
             None \<Rightarrow> (Inl TypeError, p)
           | Some blockUVData \<Rightarrow>
               if length blockUVData = 0 then (Inr None, p)
               else (let uvMappedFaces = computeUVs n blockUVData
                     in (Inr (Some uvMappedFaces),
                         p\<lparr>uvCache := (uvCache p)(blockType \<mapsto> uvMappedFaces)\<rparr>))))"

text \<open>An instanced mesh, as far as \<^verbatim>\<open>create\<close> determines it: the UV attribute of its
  geometry and the instance count given to the constructor
  (\<^verbatim>\<open>getBlockCount().get(blockType)\<close>).\<close>

record InstancedMesh =
  uv :: "jsfloat list"
  count :: "jsnum option"

text \<open>One call \<^verbatim>\<open>mesh.setMatrixAt(currentIndex, dummy.matrix)\<close> of the scan: the block type
  of the mesh, the slot \<^verbatim>\<open>currentIndex\<close>, the position set on \<^verbatim>\<open>dummy\<close>, and the value of
  \<^verbatim>\<open>index\<close> at that iteration.\<close>

record matrixWrite =
  w_index :: nat
  w_type :: int
  w_slot :: nat
  w_position :: "int \<times> int \<times> int"

record scanState =
  index :: nat
  blockIndexes :: "(int, nat) jsmap"
  writes :: "matrixWrite list"

text \<open>\<^verbatim>\<open>getSchem()[index]\<close>: a hole and an index past the end read \<^verbatim>\<open>undefined\<close>.\<close>

definition array_get :: "'a option list \<Rightarrow> nat \<Rightarrow> 'a option" where
  "array_get a i = (if i < length a then a ! i else None)"

text \<open>The body of the innermost loop of the scan.\<close>

definition scanCell ::
  "UnpackedSchematic \<Rightarrow> (int, InstancedMesh) jsmap \<Rightarrow> nat \<Rightarrow> nat \<Rightarrow> nat \<Rightarrow> scanState
   \<Rightarrow> scanState" where
  "scanCell s instancedMeshes x y z st =
     (let st1 =
        (case array_get (schematic s) (index st) of
           None \<Rightarrow> st
         | Some blockType \<Rightarrow>
             (case map_get blockType instancedMeshes of
                None \<Rightarrow> st
              | Some mesh \<Rightarrow>
                  (let currentIndex =
                         (case map_get blockType (blockIndexes st) of None \<Rightarrow> 0 | Some i \<Rightarrow> i)
                   in st\<lparr>writes := writes st @
                             [\<lparr>w_index = index st, w_type = blockType, w_slot = currentIndex,
                               w_position = (int x, int y, int z)\<rparr>],
                          blockIndexes := map_set blockType (currentIndex + 1) (blockIndexes st)\<rparr>)))
      in st1\<lparr>index := index st1 + 1\<rparr>)"

definition scan :: "UnpackedSchematic \<Rightarrow> (int, InstancedMesh) jsmap \<Rightarrow> scanState" where
  "scan s instancedMeshes =
     fold (\<lambda>x. fold (\<lambda>y. fold (\<lambda>z. scanCell s instancedMeshes x y z)
                              [0..<nat (sizeZ s)])
                    [0..<nat (sizeY s)])
          [0..<nat (sizeX s)]
          \<lparr>index = 0, blockIndexes = [], writes = []\<rparr>"

text \<open>The first loop of \<^verbatim>\<open>create\<close>: the UV table of every counted block type.\<close>

fun unwrapAll ::
  "int \<Rightarrow> (int \<rightharpoonup> faceMapping) \<Rightarrow> int list \<Rightarrow> (int, jsfloat list) jsmap \<Rightarrow> GeometryPlacer
   \<Rightarrow> (error + (int, jsfloat list) jsmap) \<times> GeometryPlacer" where
  "unwrapAll n dict [] typeToUV p = (Inr typeToUV, p)"
| "unwrapAll n dict (blockType # blockTypes) typeToUV p =
     (case unwrapUVs n dict p blockType of
        (Inl e, p') \<Rightarrow> (Inl e, p')
      | (Inr None, p') \<Rightarrow> unwrapAll n dict blockTypes typeToUV p'
      | (Inr (Some uvs), p') \<Rightarrow> unwrapAll n dict blockTypes (map_set blockType uvs typeToUV) p')"

text \<open>The second loop: one mesh for every block type that has a UV table; \<^verbatim>\<open>output\<close> is
  called with each of them, in this order.\<close>

definition makeMeshes ::
  "UnpackedSchematic \<Rightarrow> (int, jsfloat list) jsmap \<Rightarrow> (int, InstancedMesh) jsmap" where
  "makeMeshes s typeToUV =
     fold (\<lambda>blockType instancedMeshes.
             case map_get blockType typeToUV of
               None \<Rightarrow> instancedMeshes
             | Some uvs \<Rightarrow>
                 map_set blockType \<lparr>uv = uvs, count = map_get blockType (blockCounts s)\<rparr>
                   instancedMeshes)
          (map_keys (blockCounts s)) []"

text \<open>What \<^verbatim>\<open>create\<close> hands to its caller: the meshes passed to \<^verbatim>\<open>output\<close>, in order and
  keyed by block type, and the matrices written into them by the scan.\<close>

record created =
  meshes :: "(int, InstancedMesh) jsmap"
  matrices :: "matrixWrite list"

text \<open>The three operands of the check at the head of \<^verbatim>\<open>create\<close>: \<^verbatim>\<open>undefined\<close>, the
  number \<open>0\<close> and the empty string are falsy, every object is truthy.\<close>

definition falsy_number :: "int option \<Rightarrow> bool" where
  "falsy_number v = (case v of None \<Rightarrow> True | Some n \<Rightarrow> n = 0)"

definition falsy_string :: "string option \<Rightarrow> bool" where
  "falsy_string v = (case v of None \<Rightarrow> True | Some str \<Rightarrow> str = [])"

definition falsy_object :: "'a option \<Rightarrow> bool" where
  "falsy_object v = (case v of None \<Rightarrow> True | Some obj \<Rightarrow> False)"

definition create ::
  "UnpackedSchematic \<Rightarrow> GeometryPlacer \<Rightarrow> (error + created) \<times> GeometryPlacer" where
  "create s p =
     (if falsy_number (textureCount s) \<or> falsy_string (textureData s)
         \<or> falsy_object (textureDictionary s)
      then (Inl TextureDataNotSet, p)
      else
        (case unwrapAll (the (textureCount s)) (the (textureDictionary s))
                (map_keys (blockCounts s)) [] p of
           (Inl e, p') \<Rightarrow> (Inl e, p')
         | (Inr typeToUV, p') \<Rightarrow>
             (let instancedMeshes = makeMeshes s typeToUV
              in (Inr \<lparr>meshes = instancedMeshes,
                       matrices = writes (scan s instancedMeshes)\<rparr>, p'))))"

section \<open>Notions used to state the properties\<close>

text \<open>The UV rectangle of a tile as the specification gives it, in exact arithmetic: \<open>u0 = (tileIndex + 1) /
  tileCount + \<epsilon>\<close>, \<open>u1 = (tileIndex + 2) / tileCount - \<epsilon>\<close> with \<open>\<epsilon> = 1e-5\<close>, \<open>v0 = 0\<close>,
  \<open>v1 = 1\<close>, and the four vertices in the order \<open>(u1,v1), (u0,v1), (u1,v0), (u0,v0)\<close>.\<close>

definition tile_uvs :: "int \<Rightarrow> int \<Rightarrow> rat list" where
  "tile_uvs tileCount tileIndex =
     (let u0 = (of_int tileIndex + 1) / of_int tileCount + 1 / 100000;
          u1 = (of_int tileIndex + 2) / of_int tileCount - 1 / 100000
      in [u1, 1, u0, 1, u1, 0, u0, 0])"

text \<open>The eight values of a face in a UV table.\<close>

definition face_slot :: "jsfloat list \<Rightarrow> Offset \<Rightarrow> jsfloat list" where
  "face_slot table face = take 8 (drop (offset_of face) table)"

text \<open>
  The cache of a placer agrees with an atlas (tile count and dictionary) at a block type
  when it holds no table for the type, or the table that \<^verbatim>\<open>unwrapUVs\<close> computes for the type
  from that atlas. This holds of a new placer at every type, and \<^verbatim>\<open>create\<close> keeps it for the
  atlas of the grid it is given; it fails for a placer whose cache holds a table made
  from another atlas.
\<close>

definition cache_agrees_at ::
  "int \<Rightarrow> (int \<rightharpoonup> faceMapping) \<Rightarrow> GeometryPlacer \<Rightarrow> int \<Rightarrow> bool" where
  "cache_agrees_at n dict p t =
     (case uvCache p t of
        None \<Rightarrow> True
      | Some table \<Rightarrow>
          (case dict t of
             None \<Rightarrow> False
           | Some entry \<Rightarrow> entry \<noteq> [] \<and> table = computeUVs n entry))"

text \<open>A slot lies inside the instance buffer of a mesh when it is below the instance count;
  no comparison with \<^verbatim>\<open>NaN\<close> holds.\<close>

fun slot_in_range :: "nat \<Rightarrow> jsnum option \<Rightarrow> bool" where
  "slot_in_range i (Some (Num n)) = (int i < n)"
| "slot_in_range i (Some NaN) = False"
| "slot_in_range i None = False"

text \<open>The grids that the public methods of \<^verbatim>\<open>UnpackedSchematic\<close> can build: any calls of
  \<^verbatim>\<open>setBlock\<close> and \<^verbatim>\<open>pushBlock\<close> on a new grid (a call may throw and be caught), and the
  atlas set afterwards; \<^verbatim>\<open>setTextureData\<close> touches neither the cells nor the counts.\<close>

definition built_grid ::
  "int \<Rightarrow> int \<Rightarrow> int \<Rightarrow> call list \<Rightarrow> string \<Rightarrow> int \<Rightarrow> (int \<rightharpoonup> faceMapping)
   \<Rightarrow> UnpackedSchematic" where
  "built_grid sx sy sz cs texture n dict =
     setTextureData texture n dict (run_calls cs (new_schematic sx sy sz))"

text \<open>The table that the first loop of \<^verbatim>\<open>create\<close> has for a block type at which the
  cache agrees with the atlas: none for a type without entry or with an empty one.\<close>

definition table_of :: "int \<Rightarrow> (int \<rightharpoonup> faceMapping) \<Rightarrow> int \<Rightarrow> jsfloat list option" where
  "table_of n dict t =
     (case dict t of None \<Rightarrow> None
      | Some entry \<Rightarrow> if entry = [] then None else Some (computeUVs n entry))"

text \<open>The counts cover the cells: for every nonzero block type, the cells that hold it are
  at most as many as its count (a number, not \<^verbatim>\<open>NaN\<close>), and no cell holds a type that has
  no count.\<close>

definition counts_cover :: "UnpackedSchematic \<Rightarrow> bool" where
  "counts_cover s =
     (\<forall>t. t \<noteq> 0 \<longrightarrow>
        (map_get t (blockCounts s) = None \<and> count_list (schematic s) (Some t) = 0)
        \<or> (\<exists>n. map_get t (blockCounts s) = Some (Num n)
                \<and> int (count_list (schematic s) (Some t)) \<le> n))"

text \<open>The invariant of the scan: \<^verbatim>\<open>blockIndexes.get(t) ?? 0\<close> is the number of cells holding
  \<open>t\<close> among those scanned so far, for every type with a mesh, and every write so far went
  to a mesh, into a slot below that number.\<close>

definition next_slot :: "(int, nat) jsmap \<Rightarrow> int \<Rightarrow> nat" where
  "next_slot bi t = (case map_get t bi of None \<Rightarrow> 0 | Some i \<Rightarrow> i)"

definition scan_inv :: "int option list \<Rightarrow> (int, InstancedMesh) jsmap \<Rightarrow> scanState \<Rightarrow> bool" where
  "scan_inv cells ms st =
     ((\<forall>t. map_get t ms \<noteq> None \<longrightarrow>
          next_slot (blockIndexes st) t = count_list (take (index st) cells) (Some t))
      \<and> (\<forall>w \<in> set (writes st).
            map_get (w_type w) ms \<noteq> None
            \<and> w_slot w < count_list (take (index st) cells) (Some (w_type w))))"

text \<open>The value of \<^verbatim>\<open>index\<close> when the loops of the scan are at \<open>(x, y, z)\<close>, and the
  invariant that every write so far was made at that index of its position.\<close>

definition scan_index_at :: "UnpackedSchematic \<Rightarrow> nat \<Rightarrow> nat \<Rightarrow> nat \<Rightarrow> nat" where
  "scan_index_at s x y z = (x * nat (sizeY s) + y) * nat (sizeZ s) + z"

definition writes_in_order :: "UnpackedSchematic \<Rightarrow> scanState \<Rightarrow> bool" where
  "writes_in_order s st =
     (\<forall>w \<in> set (writes st). \<forall>x y z.
        w_position w = (int x, int y, int z) \<longrightarrow> w_index w = scan_index_at s x y z)"

text \<open>The loop of \<^verbatim>\<open>mapTextures\<close>, on the array of the values as they are stored.\<close>

definition write_stored :: "jsfloat list \<Rightarrow> jsfloat list \<Rightarrow> nat \<Rightarrow> jsfloat list" where
  "write_stored stored mapping offset =
     fold (\<lambda>i m. if m ! (offset + i) = Fin (- 1) then m[offset + i := stored ! i] else m)
       [0..<8] mapping"

section \<open>Capacity of \<^verbatim>\<open>pushBlock\<close>\<close>

lemma pushBlock_sizes:
  "sizeX (snd (pushBlock t s)) = sizeX s \<and> sizeY (snd (pushBlock t s)) = sizeY s
   \<and> sizeZ (snd (pushBlock t s)) = sizeZ s"
  by (simp add: pushBlock_def Let_def)

lemma pushes_succeed:
  "int (length (schematic s)) + int (length ts) \<le> sizeX s * sizeY s * sizeZ s + 1 \<Longrightarrow>
   all_succeed (map PushBlock ts) s
   \<and> schematic (run_calls (map PushBlock ts) s) = schematic s @ map Some ts
   \<and> sizeX (run_calls (map PushBlock ts) s) = sizeX s
   \<and> sizeY (run_calls (map PushBlock ts) s) = sizeY s
   \<and> sizeZ (run_calls (map PushBlock ts) s) = sizeZ s"
proof (induction ts arbitrary: s)
  case Nil
  then show ?case by simp
next
  case (Cons t ts)
  let ?s1 = "snd (pushBlock t s)"
  from Cons.prems have fits: "\<not> int (length (schematic s)) > sizeX s * sizeY s * sizeZ s"
    by simp
  then have ok: "fst (pushBlock t s) = Inr ()"
    and cells: "schematic ?s1 = schematic s @ [Some t]"
    by (simp_all add: pushBlock_def Let_def)
  have sz: "sizeX ?s1 = sizeX s" "sizeY ?s1 = sizeY s" "sizeZ ?s1 = sizeZ s"
    using pushBlock_sizes [of t s] by simp_all
  from Cons.prems cells sz
  have "int (length (schematic ?s1)) + int (length ts) \<le> sizeX ?s1 * sizeY ?s1 * sizeZ ?s1 + 1"
    by simp
  from Cons.IH [OF this] ok cells sz show ?case
    by simp
qed

text \<open>
  Claim C4. On a freshly constructed grid, any \<open>sizeX * sizeY * sizeZ + 1\<close> calls of
  \<^verbatim>\<open>pushBlock\<close> all succeed (the array then holds one element more than the volume of the
  grid), and the call after them throws "Schematic is full!": the check compares the length
  before the push with the volume by \<open>>\<close>.
\<close>

theorem pushBlock_capacity:
  assumes "int (length ts) = sx * sy * sz + 1"
  shows "all_succeed (map PushBlock ts) (new_schematic sx sy sz)
         \<and> schematic (run_calls (map PushBlock ts) (new_schematic sx sy sz)) = map Some ts
         \<and> fst (pushBlock t (run_calls (map PushBlock ts) (new_schematic sx sy sz)))
             = Inl SchematicFull"
proof -
  let ?s0 = "new_schematic sx sy sz"
  let ?s' = "run_calls (map PushBlock ts) ?s0"
  have "int (length (schematic ?s0)) + int (length ts) \<le> sizeX ?s0 * sizeY ?s0 * sizeZ ?s0 + 1"
    using assms by (simp add: new_schematic_def)
  from pushes_succeed [OF this]
  have run: "all_succeed (map PushBlock ts) ?s0"
    and cells: "schematic ?s' = map Some ts"
    and sz: "sizeX ?s' = sx" "sizeY ?s' = sy" "sizeZ ?s' = sz"
    by (simp_all add: new_schematic_def)
  from cells assms have "int (length (schematic ?s')) = sx * sy * sz + 1"
    by simp
  with sz have "fst (pushBlock t ?s') = Inl SchematicFull"
    by (simp add: pushBlock_def Let_def)
  with run cells show ?thesis by simp
qed

theorem pushBlock_capacity_witness:
  "int (length [7, 7, 0 :: int]) = 2 * 1 * 1 + 1
   \<and> all_succeed (map PushBlock [7, 7, 0]) (new_schematic 2 1 1)
   \<and> schematic (run_calls (map PushBlock [7, 7, 0]) (new_schematic 2 1 1)) = map Some [7, 7, 0]
   \<and> fst (pushBlock 7 (run_calls (map PushBlock [7, 7, 0]) (new_schematic 2 1 1)))
       = Inl SchematicFull"
  using pushBlock_capacity [of "[7, 7, 0]" 2 1 1 7] by simp

section \<open>Occurrence counts\<close>

lemma map_get_map_set: "map_get k (map_set k' v m) = (if k = k' then Some v else map_get k m)"
  by (induction m) (auto simp: map_get_def)

lemma countBlock_same:
  "t \<noteq> 0 \<Longrightarrow> map_get t (countBlock t m)
     = Some (case map_get t m of None \<Rightarrow> Num 1 | Some c \<Rightarrow> plus1 (Some c))"
  by (auto simp: countBlock_def Let_def map_get_map_set map_has_def split: option.splits)

lemma countBlock_other: "t' \<noteq> t \<Longrightarrow> map_get t' (countBlock t m) = map_get t' m"
  by (simp add: countBlock_def Let_def map_get_map_set)

lemma do_call_counts:
  "blockCounts (snd (do_call c s)) = countBlock (call_type c) (blockCounts s)"
  by (cases c) (simp_all add: setBlock_def pushBlock_def Let_def)

text \<open>
  Claim C2 says that a write of type 0 is never counted. The source guards only the
  initialisation of the entry by \<^verbatim>\<open>type != 0\<close>; the increment after it is not guarded, so
  the first write of type 0 stores \<^verbatim>\<open>undefined + 1\<close>, that is \<^verbatim>\<open>NaN\<close>, under the key 0.
  Both \<^verbatim>\<open>setBlock(0, 0, 0, 0)\<close> and \<^verbatim>\<open>pushBlock(0)\<close> on a new 1 x 1 x 1 grid succeed and
  leave the mapping \<open>{0 \<mapsto> NaN}\<close>.
\<close>

theorem air_write_is_counted:
  "fst (setBlock 0 0 0 0 (new_schematic 1 1 1)) = Inr ()
   \<and> blockCounts (new_schematic 1 1 1) = []
   \<and> blockCounts (snd (setBlock 0 0 0 0 (new_schematic 1 1 1))) = [(0, NaN)]
   \<and> fst (pushBlock 0 (new_schematic 1 1 1)) = Inr ()
   \<and> blockCounts (snd (pushBlock 0 (new_schematic 1 1 1))) = [(0, NaN)]"
  by (simp add: new_schematic_def setBlock_def pushBlock_def Let_def countBlock_def
      map_has_def map_get_def)

text \<open>
  Claim C5 as stated fails: \<^verbatim>\<open>pushBlock\<close> updates the counts before it checks the
  capacity. On a 1 x 1 x 1 grid that holds two pushed blocks of type 5, the third
  \<^verbatim>\<open>pushBlock(5)\<close> throws "Schematic is full!" and the mapping is no longer what it was.
\<close>

theorem pushBlock_full_changes_counts:
  "fst (pushBlock 5 (run_calls [PushBlock 5, PushBlock 5] (new_schematic 1 1 1)))
     = Inl SchematicFull
   \<and> blockCounts (run_calls [PushBlock 5, PushBlock 5] (new_schematic 1 1 1)) = [(5, Num 2)]
   \<and> blockCounts (snd (pushBlock 5 (run_calls [PushBlock 5, PushBlock 5] (new_schematic 1 1 1))))
       = [(5, Num 3)]
   \<and> blockCounts (snd (pushBlock 5 (run_calls [PushBlock 5, PushBlock 5] (new_schematic 1 1 1))))
       \<noteq> blockCounts (run_calls [PushBlock 5, PushBlock 5] (new_schematic 1 1 1))"
  by (simp add: new_schematic_def pushBlock_def Let_def countBlock_def map_has_def map_get_def)

text \<open>
  Claim C5, amended. When \<^verbatim>\<open>pushBlock(t)\<close> throws "Schematic is full!", the array of
  cells is what it was before the call, and the counts of the other block types are
  unchanged; the count of a nonzero \<open>t\<close> has been incremented all the same (set to 1 when
  \<open>t\<close> had no entry).
\<close>

theorem pushBlock_full_effects:
  assumes "fst (pushBlock t s) = Inl SchematicFull"
  shows "schematic (snd (pushBlock t s)) = schematic s
         \<and> (t \<noteq> 0 \<longrightarrow> map_get t (blockCounts (snd (pushBlock t s)))
              = Some (case map_get t (blockCounts s) of
                        None \<Rightarrow> Num 1 | Some c \<Rightarrow> plus1 (Some c)))
         \<and> (\<forall>t'. t' \<noteq> t \<longrightarrow>
               map_get t' (blockCounts (snd (pushBlock t s))) = map_get t' (blockCounts s))"
  using assms
  by (auto simp: pushBlock_def Let_def countBlock_same countBlock_other split: if_splits)

theorem pushBlock_full_effects_witness:
  "fst (pushBlock 5 (run_calls [PushBlock 7, PushBlock 5] (new_schematic 1 1 1)))
     = Inl SchematicFull
   \<and> schematic (snd (pushBlock 5 (run_calls [PushBlock 7, PushBlock 5] (new_schematic 1 1 1))))
       = [Some 7, Some 5]
   \<and> map_get 5 (blockCounts (run_calls [PushBlock 7, PushBlock 5] (new_schematic 1 1 1)))
       = Some (Num 1)
   \<and> map_get 5 (blockCounts
        (snd (pushBlock 5 (run_calls [PushBlock 7, PushBlock 5] (new_schematic 1 1 1)))))
       = Some (Num 2)
   \<and> map_get 7 (blockCounts
        (snd (pushBlock 5 (run_calls [PushBlock 7, PushBlock 5] (new_schematic 1 1 1)))))
       = Some (Num 1)"
proof -
  let ?g = "run_calls [PushBlock 7, PushBlock 5] (new_schematic 1 1 1)"
  have full: "fst (pushBlock 5 ?g) = Inl SchematicFull"
    by (simp add: new_schematic_def pushBlock_def Let_def)
  have cells: "schematic ?g = [Some 7, Some 5]"
    by (simp add: new_schematic_def pushBlock_def Let_def)
  have before: "map_get 5 (blockCounts ?g) = Some (Num 1)"
    "map_get 7 (blockCounts ?g) = Some (Num 1)"
    by (simp_all add: new_schematic_def pushBlock_def Let_def countBlock_def map_has_def
        map_get_def)
  from pushBlock_full_effects [OF full] full cells before show ?thesis
    by simp
qed

lemma run_calls_counts:
  assumes "t \<noteq> 0"
  shows "map_get t (blockCounts s) = (if n = 0 then None else Some (Num (int n))) \<Longrightarrow>
     map_get t (blockCounts (run_calls cs s))
       = (if n + calls_of t cs = 0 then None else Some (Num (int (n + calls_of t cs))))"
proof (induction cs arbitrary: s n)
  case Nil
  then show ?case by (simp add: calls_of_def)
next
  case (Cons c cs)
  show ?case
  proof (cases "call_type c = t")
    case True
    with Cons.prems assms
    have "map_get t (blockCounts (snd (do_call c s)))
            = (if Suc n = 0 then None else Some (Num (int (Suc n))))"
      by (simp add: do_call_counts countBlock_same)
    from Cons.IH [OF this] True show ?thesis by (simp add: calls_of_def)
  next
    case False
    with Cons.prems
    have "map_get t (blockCounts (snd (do_call c s)))
            = (if n = 0 then None else Some (Num (int n)))"
      by (simp add: do_call_counts countBlock_other)
    from Cons.IH [OF this] False show ?thesis by (simp add: calls_of_def)
  qed
qed

text \<open>
  Claim C6. After a sequence of \<^verbatim>\<open>setBlock\<close> and \<^verbatim>\<open>pushBlock\<close> calls on a new grid, none of
  which threw, the count of a nonzero block type \<open>t\<close> is the number of calls of the sequence
  whose type argument was \<open>t\<close> (there is no entry for \<open>t\<close> when there was no such call).
  Where a call wrote over a cell, the count of the type that the cell held is not
  decremented: the count depends on the calls only, not on the cells.
\<close>

theorem counts_equal_calls:
  assumes "t \<noteq> 0" and "all_succeed cs (new_schematic sx sy sz)"
  shows "map_get t (blockCounts (run_calls cs (new_schematic sx sy sz)))
           = (if calls_of t cs = 0 then None else Some (Num (int (calls_of t cs))))"
  using run_calls_counts [OF assms(1), of "new_schematic sx sy sz" 0 cs]
  by (simp add: new_schematic_def map_get_def)

theorem counts_equal_calls_witness:
  "(5::int) \<noteq> 0
   \<and> all_succeed [SetBlock 5 0 0 0, SetBlock 7 0 0 0, PushBlock 5] (new_schematic 1 1 1)
   \<and> schematic (run_calls [SetBlock 5 0 0 0, SetBlock 7 0 0 0, PushBlock 5]
        (new_schematic 1 1 1)) = [Some 7, Some 5]
   \<and> map_get 5 (blockCounts
        (run_calls [SetBlock 5 0 0 0, SetBlock 7 0 0 0, PushBlock 5] (new_schematic 1 1 1)))
       = Some (Num 2)"
proof -
  let ?cs = "[SetBlock 5 0 0 0, SetBlock 7 0 0 0, PushBlock 5]"
  have ok: "all_succeed ?cs (new_schematic 1 1 1)"
    by (simp add: new_schematic_def setBlock_def pushBlock_def Let_def
        getSchematicLocation_def array_set_def)
  have cells: "schematic (run_calls ?cs (new_schematic 1 1 1)) = [Some 7, Some 5]"
    by (simp add: new_schematic_def setBlock_def pushBlock_def Let_def
        getSchematicLocation_def array_set_def)
  show ?thesis
    using counts_equal_calls [of 5 ?cs 1 1 1] ok cells
    by (simp add: calls_of_def)
qed

section \<open>The check of the atlas in \<^verbatim>\<open>create\<close>\<close>

lemma do_call_texture:
  "textureCount (snd (do_call c s)) = textureCount s
   \<and> textureData (snd (do_call c s)) = textureData s
   \<and> textureDictionary (snd (do_call c s)) = textureDictionary s"
  by (cases c) (simp_all add: setBlock_def pushBlock_def Let_def)

lemma run_calls_texture:
  "textureCount (run_calls cs s) = textureCount s
   \<and> textureData (run_calls cs s) = textureData s
   \<and> textureDictionary (run_calls cs s) = textureDictionary s"
  by (induction cs arbitrary: s) (simp_all add: do_call_texture)

text \<open>
  Claim C10. \<^verbatim>\<open>create\<close> throws "Texture data is not set!", before it does anything else,
  on a grid on which \<^verbatim>\<open>setTextureData\<close> was never called, and also on a grid whose atlas was
  set with a tile count of 0 or with an empty string of image data: the check is by
  truthiness of the three fields.
\<close>

theorem create_requires_texture_data:
  "create (run_calls cs (new_schematic sx sy sz)) p = (Inl TextureDataNotSet, p)
   \<and> create (setTextureData texture 0 dict s) p = (Inl TextureDataNotSet, p)
   \<and> create (setTextureData [] n dict s) p = (Inl TextureDataNotSet, p)"
  by (simp add: create_def run_calls_texture new_schematic_def setTextureData_def
      falsy_number_def falsy_string_def)

theorem create_requires_texture_data_witness:
  "fst (create (run_calls [PushBlock 5] (new_schematic 1 1 1)) new_placer)
     = Inl TextureDataNotSet
   \<and> fst (create (setTextureData ''atlas'' 0 [5 \<mapsto> [(''all'', 0)]]
             (run_calls [PushBlock 5] (new_schematic 1 1 1))) new_placer)
       = Inl TextureDataNotSet
   \<and> fst (create (setTextureData [] 4 [5 \<mapsto> [(''all'', 0)]]
             (run_calls [PushBlock 5] (new_schematic 1 1 1))) new_placer)
       = Inl TextureDataNotSet"
  using create_requires_texture_data
    [of "[PushBlock 5]" 1 1 1 new_placer "''atlas''" "[5 \<mapsto> [(''all'', 0)]]"
        "run_calls [PushBlock 5] (new_schematic 1 1 1)" 4]
  by simp

section \<open>Unwrapping the atlas\<close>

text \<open>The rounding at known values: one tenth in both formats, the overflow threshold of
  the 32-bit format, ties among its subnormal numbers, and a value that rounds to \<open>-1\<close>.\<close>

lemma round_float_examples:
  "to_double (1 / 10) = Fin (3602879701896397 / 36028797018963968)"
  "to_float32 (1 / 10) = Fin (13421773 / 134217728)"
  "to_float32 (2 ^ 128 - 2 ^ 103) = PosInf"
  "to_float32 (2 ^ 128 - 2 ^ 103 - 1) = Fin (2 ^ 128 - 2 ^ 104)"
  "to_float32 (1 / 2 ^ 150) = Fin 0"
  "to_float32 (3 / 2 ^ 150) = Fin (1 / 2 ^ 148)"
  "to_float32 (- 1 - 1 / 2 ^ 25) = Fin (- 1)"
  by code_simp+

lemma length_uvs_of: "length (uvs_of n s) = 8"
  by (simp add: uvs_of_def uv_array_def)

lemma mapTextures_stored:
  "mapTextures n mapping stride offset
     = write_stored (map float32_store (uvs_of n stride)) mapping offset"
proof -
  have "\<And>i. i \<in> set [0..<8] \<Longrightarrow>
      map float32_store (uvs_of n stride) ! i = float32_store (uvs_of n stride ! i)"
    by (simp add: length_uvs_of)
  then show ?thesis
    unfolding mapTextures_def write_stored_def
    by (intro fold_cong refl ext) (simp cong: if_cong)
qed

lemma stored_4_0:
  "map float32_store (uvs_of 4 0)
     = [Fin (1048555 / 2097152), Fin 1, Fin (524309 / 2097152), Fin 1,
        Fin (1048555 / 2097152), Fin 0, Fin (524309 / 2097152), Fin 0]"
  by code_simp

lemma stored_4_1:
  "map float32_store (uvs_of 4 1)
     = [Fin (1572843 / 2097152), Fin 1, Fin (1048597 / 2097152), Fin 1,
        Fin (1572843 / 2097152), Fin 0, Fin (1048597 / 2097152), Fin 0]"
  by code_simp

lemma rounded_4_0:
  "map to_float32 (tile_uvs 4 0)
     = [Fin (1048555 / 2097152), Fin 1, Fin (524309 / 2097152), Fin 1,
        Fin (1048555 / 2097152), Fin 0, Fin (524309 / 2097152), Fin 0]"
  by code_simp

lemma rounded_4_1:
  "map to_float32 (tile_uvs 4 1)
     = [Fin (1572843 / 2097152), Fin 1, Fin (1048597 / 2097152), Fin 1,
        Fin (1572843 / 2097152), Fin 0, Fin (1048597 / 2097152), Fin 0]"
  by code_simp

lemma computeUVs_sides: "computeUVs 4 [(''sides'', 1)] = replicate 48 (Fin (1 / 2))"
  apply (simp add: computeUVs_def switch_key_def)
  apply code_simp
  done

lemma computeUVs_side_north: "face_slot (computeUVs 4 [(''side'', 1)]) NORTH = map to_float32 (tile_uvs 4 1)"
  apply (simp add: computeUVs_def switch_key_def mapTextures_stored stored_4_1 rounded_4_1 Let_def)
  apply code_simp
  done

text \<open>
  Claim C3 says that the key \<^verbatim>\<open>"sides"\<close> maps the four vertical faces as \<^verbatim>\<open>"side"\<close> does,
  and the comment of \<^verbatim>\<open>setTextureData\<close> lists \<^verbatim>\<open>sides (north, east, south, west)\<close> among the
  mappings. The \<^verbatim>\<open>switch\<close> has a case \<^verbatim>\<open>"side"\<close> only: \<^verbatim>\<open>"sides"\<close> reaches \<^verbatim>\<open>default\<close> and
  changes nothing. For the entry \<open>{"sides": 1}\<close> and a tile count of 4 every value of the
  table is the fallback 0.5, whereas \<open>{"side": 1}\<close> gives the north face the rectangle of
  tile 1 (as 32-bit floats).
\<close>

theorem sides_key_is_ignored:
  "switch_key n ''sides'' val m = m
   \<and> fst (unwrapUVs 4 [7 \<mapsto> [(''sides'', 1)]] new_placer 7)
       = Inr (Some (replicate 48 (Fin (1 / 2))))
   \<and> face_slot (computeUVs 4 [(''sides'', 1)]) NORTH = replicate 8 (Fin (1 / 2))
   \<and> face_slot (computeUVs 4 [(''side'', 1)]) NORTH = map to_float32 (tile_uvs 4 1)
   \<and> map to_float32 (tile_uvs 4 1) \<noteq> replicate 8 (Fin (1 / 2))"
proof (intro conjI)
  show "switch_key n ''sides'' val m = m"
    by (simp add: switch_key_def)
  show "fst (unwrapUVs 4 [7 \<mapsto> [(''sides'', 1)]] new_placer 7)
          = Inr (Some (replicate 48 (Fin (1 / 2))))"
    by (simp add: unwrapUVs_def new_placer_def computeUVs_sides Let_def)
  show "face_slot (computeUVs 4 [(''sides'', 1)]) NORTH = replicate 8 (Fin (1 / 2))"
    unfolding computeUVs_sides by code_simp
  show "face_slot (computeUVs 4 [(''side'', 1)]) NORTH = map to_float32 (tile_uvs 4 1)"
    by (rule computeUVs_side_north)
  show "map to_float32 (tile_uvs 4 1) \<noteq> replicate 8 (Fin (1 / 2))"
    unfolding rounded_4_1 by code_simp
qed

lemma table_top_side:
  "computeUVs 4 [(''top'', 0), (''side'', 1)] =
     [Fin (1572843 / 2097152), Fin 1, Fin (1048597 / 2097152), Fin 1,
      Fin (1572843 / 2097152), Fin 0, Fin (1048597 / 2097152), Fin 0,
      Fin (1572843 / 2097152), Fin 1, Fin (1048597 / 2097152), Fin 1,
      Fin (1572843 / 2097152), Fin 0, Fin (1048597 / 2097152), Fin 0,
      Fin (1048555 / 2097152), Fin 1, Fin (524309 / 2097152), Fin 1,
      Fin (1048555 / 2097152), Fin 0, Fin (524309 / 2097152), Fin 0,
      Fin (1 / 2), Fin (1 / 2), Fin (1 / 2), Fin (1 / 2),
      Fin (1 / 2), Fin (1 / 2), Fin (1 / 2), Fin (1 / 2),
      Fin (1572843 / 2097152), Fin 1, Fin (1048597 / 2097152), Fin 1,
      Fin (1572843 / 2097152), Fin 0, Fin (1048597 / 2097152), Fin 0,
      Fin (1572843 / 2097152), Fin 1, Fin (1048597 / 2097152), Fin 1,
      Fin (1572843 / 2097152), Fin 0, Fin (1048597 / 2097152), Fin 0]"
  apply (simp add: computeUVs_def switch_key_def mapTextures_stored stored_4_0 stored_4_1
      Let_def)
  apply code_simp
  done

lemma table_bottom:
  "computeUVs 4 [(''bottom'', 0)] =
     replicate 24 (Fin (1 / 2))
     @ [Fin (1048555 / 2097152), Fin 1, Fin (524309 / 2097152), Fin 1,
        Fin (1048555 / 2097152), Fin 0, Fin (524309 / 2097152), Fin 0]
     @ replicate 16 (Fin (1 / 2))"
  apply (simp add: computeUVs_def switch_key_def mapTextures_stored stored_4_0 Let_def)
  apply code_simp
  done

lemma computeUVs_top_side:
  "length (computeUVs 4 [(''top'', 0), (''side'', 1)]) = 48"
  "face_slot (computeUVs 4 [(''top'', 0), (''side'', 1)]) TOP = map to_float32 (tile_uvs 4 0)"
  "face_slot (computeUVs 4 [(''top'', 0), (''side'', 1)]) NORTH = map to_float32 (tile_uvs 4 1)"
  "face_slot (computeUVs 4 [(''top'', 0), (''side'', 1)]) EAST = map to_float32 (tile_uvs 4 1)"
  "face_slot (computeUVs 4 [(''top'', 0), (''side'', 1)]) SOUTH = map to_float32 (tile_uvs 4 1)"
  "face_slot (computeUVs 4 [(''top'', 0), (''side'', 1)]) WEST = map to_float32 (tile_uvs 4 1)"
  "face_slot (computeUVs 4 [(''top'', 0), (''side'', 1)]) BOTTOM = replicate 8 (Fin (1 / 2))"
  unfolding table_top_side rounded_4_0 rounded_4_1 by code_simp+

lemma computeUVs_bottom:
  "face_slot (computeUVs 4 [(''bottom'', 0)]) TOP = replicate 8 (Fin (1 / 2))"
  "face_slot (computeUVs 4 [(''bottom'', 0)]) BOTTOM = map to_float32 (tile_uvs 4 0)"
  "map to_float32 (tile_uvs 4 0) \<noteq> replicate 8 (Fin (1 / 2))"
  unfolding table_bottom rounded_4_0 by code_simp+

lemma stored_is_rounded:
  "computeUVs 4 [(''top'', 0), (''side'', 1)] ! 18 = Fin (524309 / 2097152)"
  "tile_uvs 4 0 ! 2 = 25001 / 100000"
  "Fin (524309 / 2097152) \<noteq> Fin (25001 / 100000)"
  unfolding table_top_side by code_simp+

lemma cache_agrees_at_new: "cache_agrees_at n dict new_placer t"
  by (simp add: cache_agrees_at_def new_placer_def)

lemma unwrapUVs_cached:
  "uvCache p t = Some cached \<Longrightarrow> unwrapUVs n dict p t = (Inr (Some cached), p)"
  by (simp add: unwrapUVs_def)

lemma unwrapUVs_missing:
  assumes "cache_agrees_at n dict p t" and "dict t = None"
  shows "unwrapUVs n dict p t = (Inl TypeError, p)"
  using assms by (simp add: cache_agrees_at_def unwrapUVs_def split: option.splits)

lemma unwrapUVs_empty:
  assumes "cache_agrees_at n dict p t" and "dict t = Some []"
  shows "unwrapUVs n dict p t = (Inr None, p)"
  using assms by (simp add: cache_agrees_at_def unwrapUVs_def split: option.splits)

lemma unwrapUVs_entry:
  assumes "cache_agrees_at n dict p t" and "dict t = Some entry" and "entry \<noteq> []"
  shows "fst (unwrapUVs n dict p t) = Inr (Some (computeUVs n entry))"
  using assms by (simp add: cache_agrees_at_def unwrapUVs_def Let_def split: option.splits)

lemma unwrapUVs_other_type:
  "k \<noteq> t \<Longrightarrow> uvCache (snd (unwrapUVs n dict p k)) t = uvCache p t"
  by (simp add: unwrapUVs_def Let_def split: option.splits)

lemma unwrapUVs_keeps_agreement:
  assumes "cache_agrees_at n dict p t"
  shows "cache_agrees_at n dict (snd (unwrapUVs n dict p k)) t"
proof (cases "k = t")
  case True
  with assms show ?thesis
    by (auto simp: cache_agrees_at_def unwrapUVs_def Let_def split: option.splits)
next
  case False
  with assms show ?thesis
    by (simp add: cache_agrees_at_def unwrapUVs_other_type)
qed

lemma unwrapUVs_error: "fst (unwrapUVs n dict p k) = Inl e \<Longrightarrow> e = TypeError"
  by (auto simp: unwrapUVs_def Let_def split: option.splits if_splits)

lemma unwrapUVs_present:
  "dict k \<noteq> None \<Longrightarrow> \<exists>found. fst (unwrapUVs n dict p k) = Inr found"
  by (auto simp: unwrapUVs_def Let_def split: option.splits)

text \<open>The definitions that evaluate the methods on a concrete grid; \<open>computeUVs\<close> is not
  among them, a table stays as it is named.\<close>

lemmas grid_eval =
  built_grid_def setTextureData_def new_schematic_def setBlock_def pushBlock_def Let_def
  countBlock_def map_has_def map_get_def getSchematicLocation_def array_set_def

lemmas create_eval =
  create_def falsy_number_def falsy_string_def falsy_object_def map_keys_def
  unwrapUVs_def new_placer_def makeMeshes_def scan_def scanCell_def array_get_def
  eval_nat_numeral

text \<open>
  Claim C7 as stated fails in two respects. A placer that has placed a grid whose atlas
  maps type 5 by \<open>{"bottom": 0}\<close> keeps that table in its cache; for a grid whose entry for
  type 5 is \<open>{"top": 0, "side": 1}\<close>, with the same tile count 4, \<^verbatim>\<open>unwrapUVs\<close> returns the
  cached table, and \<^verbatim>\<open>create\<close> gives it to the mesh: its top face is 0.5 throughout and its
  bottom face is the rectangle of tile 0. And on a new placer the values of the table are
  32-bit floats: the value at index 18, \<open>u0\<close> of the top face, is \<open>524309 / 2097152\<close> and not
  \<open>(0 + 1) / 4 + 1e-5\<close>.
\<close>

theorem unwrapUVs_stale_table:
  "uvCache (snd (create (built_grid 1 1 1 [PushBlock 5] ''atlas'' 4 [5 \<mapsto> [(''bottom'', 0)]])
                   new_placer)) 5
     = Some (computeUVs 4 [(''bottom'', 0)])
   \<and> fst (unwrapUVs 4 [5 \<mapsto> [(''top'', 0), (''side'', 1)]]
           (snd (create (built_grid 1 1 1 [PushBlock 5] ''atlas'' 4 [5 \<mapsto> [(''bottom'', 0)]])
                   new_placer)) 5)
       = Inr (Some (computeUVs 4 [(''bottom'', 0)]))
   \<and> fst (create (built_grid 1 1 1 [PushBlock 5] ''atlas'' 4
                    [5 \<mapsto> [(''top'', 0), (''side'', 1)]])
           (snd (create (built_grid 1 1 1 [PushBlock 5] ''atlas'' 4 [5 \<mapsto> [(''bottom'', 0)]])
                   new_placer)))
       = Inr \<lparr>meshes = [(5, \<lparr>uv = computeUVs 4 [(''bottom'', 0)], count = Some (Num 1)\<rparr>)],
              matrices = [\<lparr>w_index = 0, w_type = 5, w_slot = 0, w_position = (0, 0, 0)\<rparr>]\<rparr>
   \<and> face_slot (computeUVs 4 [(''bottom'', 0)]) TOP = replicate 8 (Fin (1 / 2))
   \<and> face_slot (computeUVs 4 [(''bottom'', 0)]) BOTTOM = map to_float32 (tile_uvs 4 0)
   \<and> map to_float32 (tile_uvs 4 0) \<noteq> replicate 8 (Fin (1 / 2))
   \<and> computeUVs 4 [(''top'', 0), (''side'', 1)] ! 18 = Fin (524309 / 2097152)
   \<and> tile_uvs 4 0 ! 2 = 25001 / 100000
   \<and> Fin (524309 / 2097152) \<noteq> Fin (25001 / 100000)"
proof -
  let ?gA = "built_grid 1 1 1 [PushBlock 5] ''atlas'' 4 [5 \<mapsto> [(''bottom'', 0)]]"
  let ?gB = "built_grid 1 1 1 [PushBlock 5] ''atlas'' 4 [5 \<mapsto> [(''top'', 0), (''side'', 1)]]"
  have cached: "uvCache (snd (create ?gA new_placer)) 5 = Some (computeUVs 4 [(''bottom'', 0)])"
    by (simp add: grid_eval create_eval)
  then have stale: "fst (unwrapUVs 4 [5 \<mapsto> [(''top'', 0), (''side'', 1)]]
                          (snd (create ?gA new_placer)) 5)
                      = Inr (Some (computeUVs 4 [(''bottom'', 0)]))"
    by (simp add: unwrapUVs_cached)
  have again: "fst (create ?gB (snd (create ?gA new_placer)))
       = Inr \<lparr>meshes = [(5, \<lparr>uv = computeUVs 4 [(''bottom'', 0)], count = Some (Num 1)\<rparr>)],
              matrices = [\<lparr>w_index = 0, w_type = 5, w_slot = 0, w_position = (0, 0, 0)\<rparr>]\<rparr>"
    by (simp add: grid_eval create_eval)
  from cached stale again computeUVs_bottom stored_is_rounded show ?thesis
    by simp
qed

text \<open>
  Claim C7, amended. Let the cache of the placer agree with the atlas at the block type (it
  holds no table for the type, as on a new placer, or the one made from this atlas). For a
  block type whose entry is \<open>{"top": 0, "side": 1}\<close>, with a tile count of 4, \<^verbatim>\<open>unwrapUVs\<close>
  returns a table of 48 values: the eight values of the top face are the 32-bit floats
  nearest to the rectangle of tile 0 (\<open>tile_uvs 4 0\<close>, in its vertex order), those of the
  north, east, south and west faces the 32-bit floats nearest to the rectangle of tile 1,
  and the eight values of the bottom face are 0.5.
\<close>

theorem unwrapUVs_top_side:
  assumes "dict t = Some [(''top'', 0), (''side'', 1)]" and "cache_agrees_at 4 dict p t"
  shows "fst (unwrapUVs 4 dict p t) = Inr (Some (computeUVs 4 [(''top'', 0), (''side'', 1)]))
         \<and> length (computeUVs 4 [(''top'', 0), (''side'', 1)]) = 48
         \<and> face_slot (computeUVs 4 [(''top'', 0), (''side'', 1)]) TOP
             = map to_float32 (tile_uvs 4 0)
         \<and> face_slot (computeUVs 4 [(''top'', 0), (''side'', 1)]) NORTH
             = map to_float32 (tile_uvs 4 1)
         \<and> face_slot (computeUVs 4 [(''top'', 0), (''side'', 1)]) EAST
             = map to_float32 (tile_uvs 4 1)
         \<and> face_slot (computeUVs 4 [(''top'', 0), (''side'', 1)]) SOUTH
             = map to_float32 (tile_uvs 4 1)
         \<and> face_slot (computeUVs 4 [(''top'', 0), (''side'', 1)]) WEST
             = map to_float32 (tile_uvs 4 1)
         \<and> face_slot (computeUVs 4 [(''top'', 0), (''side'', 1)]) BOTTOM
             = replicate 8 (Fin (1 / 2))"
proof -
  have "fst (unwrapUVs 4 dict p t) = Inr (Some (computeUVs 4 [(''top'', 0), (''side'', 1)]))"
    by (rule unwrapUVs_entry [OF assms(2) assms(1)]) simp
  with computeUVs_top_side show ?thesis
    by simp
qed

theorem unwrapUVs_top_side_witness:
  "[3 \<mapsto> [(''top'', 0), (''side'', 1)]] (3::int) = Some [(''top'', 0), (''side'', 1)]
   \<and> cache_agrees_at 4 [3 \<mapsto> [(''top'', 0), (''side'', 1)]] new_placer 3
   \<and> fst (unwrapUVs 4 [3 \<mapsto> [(''top'', 0), (''side'', 1)]] new_placer 3)
       = Inr (Some (computeUVs 4 [(''top'', 0), (''side'', 1)]))
   \<and> face_slot (computeUVs 4 [(''top'', 0), (''side'', 1)]) TOP
       = [Fin (1048555 / 2097152), Fin 1, Fin (524309 / 2097152), Fin 1,
          Fin (1048555 / 2097152), Fin 0, Fin (524309 / 2097152), Fin 0]
   \<and> face_slot (computeUVs 4 [(''top'', 0), (''side'', 1)]) NORTH
       = [Fin (1572843 / 2097152), Fin 1, Fin (1048597 / 2097152), Fin 1,
          Fin (1572843 / 2097152), Fin 0, Fin (1048597 / 2097152), Fin 0]
   \<and> face_slot (computeUVs 4 [(''top'', 0), (''side'', 1)]) BOTTOM = replicate 8 (Fin (1 / 2))"
proof -
  have entry: "[3 \<mapsto> [(''top'', 0), (''side'', 1)]] (3::int) = Some [(''top'', 0), (''side'', 1)]"
    by simp
  have fresh: "cache_agrees_at 4 [3 \<mapsto> [(''top'', 0), (''side'', 1)]] new_placer 3"
    by (simp add: cache_agrees_at_def new_placer_def)
  from unwrapUVs_top_side [OF entry fresh] entry fresh rounded_4_0 rounded_4_1 show ?thesis
    by simp
qed


section \<open>The first loop of \<^verbatim>\<open>create\<close>\<close>

lemma makeMeshes_fold:
  "map_get t (fold (\<lambda>blockType instancedMeshes.
             case map_get blockType typeToUV of
               None \<Rightarrow> instancedMeshes
             | Some uvs \<Rightarrow>
                 map_set blockType \<lparr>uv = uvs, count = map_get blockType counts\<rparr>
                   instancedMeshes) ks acc)
   = (if t \<in> set ks \<and> map_get t typeToUV \<noteq> None
      then Some \<lparr>uv = the (map_get t typeToUV), count = map_get t counts\<rparr>
      else map_get t acc)"
  by (induction ks arbitrary: acc) (auto simp: map_get_map_set split: option.splits)

lemma map_get_makeMeshes:
  "map_get t (makeMeshes s typeToUV)
   = (if t \<in> set (map_keys (blockCounts s)) \<and> map_get t typeToUV \<noteq> None
      then Some \<lparr>uv = the (map_get t typeToUV), count = map_get t (blockCounts s)\<rparr>
      else None)"
  by (simp add: makeMeshes_def makeMeshes_fold) (simp add: map_get_def)

lemma unwrapAll_error: "fst (unwrapAll n dict ks acc p) = Inl e \<Longrightarrow> e = TypeError"
proof (induction ks arbitrary: acc p)
  case Nil
  then show ?case by simp
next
  case (Cons k ks)
  obtain res p' where step: "unwrapUVs n dict p k = (res, p')"
    by (cases "unwrapUVs n dict p k")
  show ?case
  proof (cases res)
    case (Inl e')
    with step Cons.prems unwrapUVs_error [of n dict p k e'] show ?thesis by simp
  next
    case (Inr found)
    with step Cons.prems Cons.IH show ?thesis
      by (cases found) auto
  qed
qed

lemma unwrapAll_fails:
  "cache_agrees_at n dict p t \<Longrightarrow> t \<in> set ks \<Longrightarrow> dict t = None \<Longrightarrow>
   fst (unwrapAll n dict ks acc p) = Inl TypeError"
proof (induction ks arbitrary: acc p)
  case Nil
  then show ?case by simp
next
  case (Cons k ks)
  show ?case
  proof (cases "k = t")
    case True
    with Cons.prems show ?thesis by (simp add: unwrapUVs_missing)
  next
    case False
    with Cons.prems have rest: "t \<in> set ks" by simp
    obtain res p' where step: "unwrapUVs n dict p k = (res, p')"
      by (cases "unwrapUVs n dict p k")
    from unwrapUVs_keeps_agreement [OF Cons.prems(1), of k] step
    have agree: "cache_agrees_at n dict p' t" by simp
    show ?thesis
    proof (cases res)
      case (Inl e)
      with step unwrapUVs_error [of n dict p k e] show ?thesis by simp
    next
      case (Inr found)
      with step Cons.IH [OF agree rest Cons.prems(3)] show ?thesis
        by (cases found) simp_all
    qed
  qed
qed

lemma unwrapAll_present:
  "\<forall>k \<in> set ks. dict k \<noteq> None \<Longrightarrow> \<exists>typeToUV. fst (unwrapAll n dict ks acc p) = Inr typeToUV"
proof (induction ks arbitrary: acc p)
  case Nil
  then show ?case by simp
next
  case (Cons k ks)
  from Cons.prems have "dict k \<noteq> None" by simp
  then obtain found where
    found: "fst (unwrapUVs n dict p k) = Inr found"
    using unwrapUVs_present [of dict k n p] by blast
  from Cons.prems have rest: "\<forall>k \<in> set ks. dict k \<noteq> None" by simp
  from found Cons.IH [OF rest] show ?case
    by (cases "unwrapUVs n dict p k"; cases found) simp_all
qed

lemma unwrapAll_table:
  "cache_agrees_at n dict p t \<Longrightarrow> fst (unwrapAll n dict ks acc p) = Inr typeToUV \<Longrightarrow>
   map_get t typeToUV
     = (if t \<in> set ks \<and> table_of n dict t \<noteq> None then table_of n dict t else map_get t acc)"
proof (induction ks arbitrary: acc p)
  case Nil
  then show ?case by simp
next
  case (Cons k ks)
  obtain res p' where step: "unwrapUVs n dict p k = (res, p')"
    by (cases "unwrapUVs n dict p k")
  from unwrapUVs_keeps_agreement [OF Cons.prems(1), of k] step
  have agree: "cache_agrees_at n dict p' t" by simp
  from step Cons.prems(2) obtain found where res: "res = Inr found"
    by (cases res) simp_all
  show ?case
  proof (cases found)
    case None
    with step res Cons.prems(2) have run: "fst (unwrapAll n dict ks acc p') = Inr typeToUV"
      by simp
    have "k = t \<Longrightarrow> table_of n dict t = None"
    proof -
      assume kt: "k = t"
      show "table_of n dict t = None"
      proof (cases "dict t")
        case None
        then show ?thesis by (simp add: table_of_def)
      next
        case (Some entry)
        show ?thesis
        proof (cases "entry = []")
          case True
          with Some show ?thesis by (simp add: table_of_def)
        next
          case False
          from unwrapUVs_entry [OF Cons.prems(1) Some False] kt step res None
          show ?thesis by simp
        qed
      qed
    qed
    with Cons.IH [OF agree run] show ?thesis by auto
  next
    case (Some uvs)
    with step res Cons.prems(2)
    have run: "fst (unwrapAll n dict ks (map_set k uvs acc) p') = Inr typeToUV"
      by simp
    have "k = t \<Longrightarrow> table_of n dict t = Some uvs"
    proof -
      assume kt: "k = t"
      show "table_of n dict t = Some uvs"
      proof (cases "dict t")
        case None
        from unwrapUVs_missing [OF Cons.prems(1) None] kt step res show ?thesis by simp
      next
        case entry: (Some entry)
        show ?thesis
        proof (cases "entry = []")
          case True
          with unwrapUVs_empty [OF Cons.prems(1)] entry kt step res Some show ?thesis by simp
        next
          case False
          from unwrapUVs_entry [OF Cons.prems(1) entry False] kt step res Some entry False
          show ?thesis by (simp add: table_of_def)
        qed
      qed
    qed
    with Cons.IH [OF agree run] show ?thesis
      by (auto simp: map_get_map_set)
  qed
qed

lemma unwrapAll_keeps_agreement:
  "cache_agrees_at n dict p t \<Longrightarrow> cache_agrees_at n dict (snd (unwrapAll n dict ks acc p)) t"
proof (induction ks arbitrary: acc p)
  case Nil
  then show ?case by simp
next
  case (Cons k ks)
  obtain res p' where step: "unwrapUVs n dict p k = (res, p')"
    by (cases "unwrapUVs n dict p k")
  from unwrapUVs_keeps_agreement [OF Cons.prems, of k] step
  have agree: "cache_agrees_at n dict p' t" by simp
  show ?case
  proof (cases res)
    case (Inl e)
    with step agree show ?thesis by simp
  next
    case (Inr found)
    with step Cons.IH [OF agree] show ?thesis
      by (cases found) simp_all
  qed
qed

lemma create_keeps_agreement:
  assumes "textureCount s = Some n" and "textureDictionary s = Some dict"
    and "cache_agrees_at n dict p t"
  shows "cache_agrees_at n dict (snd (create s p)) t"
proof (cases "falsy_number (textureCount s) \<or> falsy_string (textureData s)
         \<or> falsy_object (textureDictionary s)")
  case True
  with assms(3) show ?thesis by (simp add: create_def)
next
  case False
  obtain res p' where run: "unwrapAll n dict (map_keys (blockCounts s)) [] p = (res, p')"
    by (cases "unwrapAll n dict (map_keys (blockCounts s)) [] p")
  from unwrapAll_keeps_agreement [OF assms(3), of "map_keys (blockCounts s)" "[]"] run
  have "cache_agrees_at n dict p' t" by simp
  with False assms(1,2) run show ?thesis
    by (cases res) (simp_all add: create_def Let_def)
qed

lemma create_unfold:
  assumes "textureCount s = Some n" and "n \<noteq> 0"
    and "textureData s = Some texture" and "texture \<noteq> []"
    and "textureDictionary s = Some dict"
  shows "fst (create s p)
         = (case fst (unwrapAll n dict (map_keys (blockCounts s)) [] p) of
              Inl e \<Rightarrow> Inl e
            | Inr typeToUV \<Rightarrow>
                Inr \<lparr>meshes = makeMeshes s typeToUV,
                     matrices = writes (scan s (makeMeshes s typeToUV))\<rparr>)"
proof -
  obtain res p' where run: "unwrapAll n dict (map_keys (blockCounts s)) [] p = (res, p')"
    by (cases "unwrapAll n dict (map_keys (blockCounts s)) [] p")
  with assms show ?thesis
    by (cases res)
       (simp_all add: create_def Let_def falsy_number_def falsy_string_def falsy_object_def)
qed

text \<open>
  Claim C8 as stated fails on a placer that has placed a grid with another atlas. After a
  \<^verbatim>\<open>create\<close> with the entry \<open>{"all": 0}\<close> for type 5, the table of type 5 is in the cache, and
  \<^verbatim>\<open>unwrapUVs\<close> no longer reads the dictionary for it: \<^verbatim>\<open>create\<close> on a grid that counts type
  5 and has no entry for it does not throw, and on a grid whose entry for type 5 is empty
  it does not skip the type; both get a mesh with the cached table.
\<close>

theorem create_reused_placer:
  "fst (create (built_grid 1 1 1 [PushBlock 5] ''atlas'' 1 Map.empty)
          (snd (create (built_grid 1 1 1 [PushBlock 5] ''atlas'' 1 [5 \<mapsto> [(''all'', 0)]])
                  new_placer)))
     = Inr \<lparr>meshes = [(5, \<lparr>uv = computeUVs 1 [(''all'', 0)], count = Some (Num 1)\<rparr>)],
            matrices = [\<lparr>w_index = 0, w_type = 5, w_slot = 0, w_position = (0, 0, 0)\<rparr>]\<rparr>
   \<and> fst (create (built_grid 1 1 1 [PushBlock 5] ''atlas'' 1 [5 \<mapsto> []])
          (snd (create (built_grid 1 1 1 [PushBlock 5] ''atlas'' 1 [5 \<mapsto> [(''all'', 0)]])
                  new_placer)))
     = Inr \<lparr>meshes = [(5, \<lparr>uv = computeUVs 1 [(''all'', 0)], count = Some (Num 1)\<rparr>)],
            matrices = [\<lparr>w_index = 0, w_type = 5, w_slot = 0, w_position = (0, 0, 0)\<rparr>]\<rparr>"
  by (simp add: grid_eval create_eval)

text \<open>
  Claim C8, amended. Let the atlas of the grid be set, let the block type have a count, and
  let the cache of the placer agree with the atlas at the type (no table for the type, as
  on a new placer, or the one made from this atlas). If the dictionary has no entry for the
  type, \<^verbatim>\<open>create\<close> throws (the \<^verbatim>\<open>TypeError\<close> of \<^verbatim>\<open>Object.keys(undefined)\<close>). An entry
  without keys does not make it throw: \<^verbatim>\<open>unwrapUVs\<close> returns \<^verbatim>\<open>undefined\<close> for it and the type
  gets no mesh. Only such a type is skipped: a type with a nonempty entry gets its mesh,
  with the table of its entry and its count as instance count. \<^verbatim>\<open>create\<close> succeeds when
  every counted type has an entry, empty or not.
\<close>

theorem create_missing_entry:
  assumes "textureCount s = Some n" and "n \<noteq> 0"
    and "textureData s = Some texture" and "texture \<noteq> []"
    and "textureDictionary s = Some dict"
    and "cache_agrees_at n dict p t"
    and "t \<in> set (map_keys (blockCounts s))"
  shows "(dict t = None \<longrightarrow> fst (create s p) = Inl TypeError)
         \<and> (dict t = Some [] \<longrightarrow>
               fst (unwrapUVs n dict p t) = Inr None
               \<and> (\<forall>r. fst (create s p) = Inr r \<longrightarrow> map_get t (meshes r) = None))
         \<and> (\<forall>entry. dict t = Some entry \<and> entry \<noteq> [] \<longrightarrow>
               (\<forall>r. fst (create s p) = Inr r \<longrightarrow>
                  map_get t (meshes r)
                    = Some \<lparr>uv = computeUVs n entry, count = map_get t (blockCounts s)\<rparr>))
         \<and> ((\<forall>k \<in> set (map_keys (blockCounts s)). dict k \<noteq> None) \<longrightarrow>
               (\<exists>r. fst (create s p) = Inr r))"
proof -
  let ?ks = "map_keys (blockCounts s)"
  note unfold = create_unfold [OF assms(1-5), of p]
  have mesh: "map_get t (meshes r)
                = (case table_of n dict t of
                     None \<Rightarrow> None
                   | Some uvs \<Rightarrow> Some \<lparr>uv = uvs, count = map_get t (blockCounts s)\<rparr>)"
    if ok: "fst (create s p) = Inr r" for r
  proof -
    from ok unfold obtain typeToUV where
      run: "fst (unwrapAll n dict ?ks [] p) = Inr typeToUV"
      and r: "r = \<lparr>meshes = makeMeshes s typeToUV,
                   matrices = writes (scan s (makeMeshes s typeToUV))\<rparr>"
      by (cases "fst (unwrapAll n dict ?ks [] p)") simp_all
    from unwrapAll_table [OF assms(6) run] assms(7)
    have "map_get t typeToUV = table_of n dict t"
      by (simp add: map_get_def)
    with r assms(7) show ?thesis
      by (cases "table_of n dict t") (simp_all add: map_get_makeMeshes)
  qed
  have missing: "fst (create s p) = Inl TypeError" if "dict t = None"
    using unwrapAll_fails [OF assms(6,7) that, of "[]"] unfold by simp
  have empty: "fst (unwrapUVs n dict p t) = Inr None" if "dict t = Some []"
    using unwrapUVs_empty [OF assms(6) that] by simp
  have skipped: "map_get t (meshes r) = None"
    if "dict t = Some []" and "fst (create s p) = Inr r" for r
    using mesh [OF that(2)] that(1) by (simp add: table_of_def)
  have kept: "map_get t (meshes r)
                = Some \<lparr>uv = computeUVs n entry, count = map_get t (blockCounts s)\<rparr>"
    if "dict t = Some entry" and "entry \<noteq> []" and "fst (create s p) = Inr r" for entry r
    using mesh [OF that(3)] that(1,2) by (simp add: table_of_def)
  have succeeds: "\<exists>r. fst (create s p) = Inr r" if "\<forall>k \<in> set ?ks. dict k \<noteq> None"
  proof -
    from unwrapAll_present [OF that, of n "[]" p] obtain typeToUV where
      "fst (unwrapAll n dict ?ks [] p) = Inr typeToUV" by blast
    with unfold show ?thesis by simp
  qed
  from missing empty skipped kept succeeds show ?thesis
    by blast
qed

theorem create_missing_entry_witness:
  "fst (create (built_grid 1 1 1 [PushBlock 5] ''atlas'' 1 Map.empty) new_placer)
     = Inl TypeError
   \<and> fst (unwrapUVs 1 [5 \<mapsto> []] new_placer 5) = Inr None
   \<and> fst (create (built_grid 1 1 1 [PushBlock 5] ''atlas'' 1 [5 \<mapsto> []]) new_placer)
       = Inr \<lparr>meshes = [], matrices = []\<rparr>
   \<and> fst (create (built_grid 1 1 1 [PushBlock 5] ''atlas'' 1 [5 \<mapsto> [(''all'', 0)]])
             new_placer)
       = Inr \<lparr>meshes = [(5, \<lparr>uv = computeUVs 1 [(''all'', 0)], count = Some (Num 1)\<rparr>)],
              matrices = [\<lparr>w_index = 0, w_type = 5, w_slot = 0, w_position = (0, 0, 0)\<rparr>]\<rparr>
   \<and> map_get 5 [(5, \<lparr>uv = computeUVs 1 [(''all'', 0)], count = Some (Num 1)\<rparr>)]
       = Some \<lparr>uv = computeUVs 1 [(''all'', 0)], count = Some (Num 1)\<rparr>"
proof -
  let ?missing = "built_grid 1 1 1 [PushBlock 5] ''atlas'' 1 Map.empty"
  let ?empty = "built_grid 1 1 1 [PushBlock 5] ''atlas'' 1 [5 \<mapsto> []]"
  let ?full = "built_grid 1 1 1 [PushBlock 5] ''atlas'' 1 [5 \<mapsto> [(''all'', 0)]]"
  have keys: "map_keys (blockCounts ?missing) = [5]" "map_keys (blockCounts ?empty) = [5]"
    "map_keys (blockCounts ?full) = [5]"
    by (simp_all add: grid_eval map_keys_def)
  have counts: "map_get 5 (blockCounts ?full) = Some (Num 1)"
    by (simp add: grid_eval)
  have fresh: "cache_agrees_at 1 Map.empty new_placer 5"
    "cache_agrees_at 1 [5 \<mapsto> []] new_placer 5"
    "cache_agrees_at 1 [5 \<mapsto> [(''all'', 0)]] new_placer 5"
    by (simp_all add: cache_agrees_at_def new_placer_def)
  have missing: "fst (create ?missing new_placer) = Inl TypeError"
    using create_missing_entry [of ?missing 1 "''atlas''" Map.empty new_placer 5] keys fresh
    by (simp add: built_grid_def setTextureData_def)
  have empty:
    "fst (unwrapUVs 1 [5 \<mapsto> []] new_placer 5) = Inr None
     \<and> (\<forall>r. fst (create ?empty new_placer) = Inr r \<longrightarrow> map_get 5 (meshes r) = None)
     \<and> (\<exists>r. fst (create ?empty new_placer) = Inr r)"
    using create_missing_entry [of ?empty 1 "''atlas''" "[5 \<mapsto> []]" new_placer 5] keys fresh
    by (simp add: built_grid_def setTextureData_def)
  have full:
    "(\<forall>r. fst (create ?full new_placer) = Inr r \<longrightarrow>
        map_get 5 (meshes r)
          = Some \<lparr>uv = computeUVs 1 [(''all'', 0)], count = map_get 5 (blockCounts ?full)\<rparr>)
     \<and> (\<exists>r. fst (create ?full new_placer) = Inr r)"
    using create_missing_entry
      [of ?full 1 "''atlas''" "[5 \<mapsto> [(''all'', 0)]]" new_placer 5] keys fresh
    by (simp add: built_grid_def setTextureData_def)
  have results:
    "fst (create ?empty new_placer) = Inr \<lparr>meshes = [], matrices = []\<rparr>"
    "fst (create ?full new_placer)
       = Inr \<lparr>meshes = [(5, \<lparr>uv = computeUVs 1 [(''all'', 0)], count = Some (Num 1)\<rparr>)],
              matrices = [\<lparr>w_index = 0, w_type = 5, w_slot = 0, w_position = (0, 0, 0)\<rparr>]\<rparr>"
    by (simp_all add: grid_eval create_eval)
  from missing empty full results counts show ?thesis
    by (simp add: map_get_def)
qed


section \<open>The scan of the grid\<close>

lemma create_result:
  assumes "fst (create s p) = Inr r"
  shows "\<exists>typeToUV. r = \<lparr>meshes = makeMeshes s typeToUV,
                         matrices = writes (scan s (makeMeshes s typeToUV))\<rparr>"
proof (cases "falsy_number (textureCount s) \<or> falsy_string (textureData s)
         \<or> falsy_object (textureDictionary s)")
  case True
  with assms show ?thesis by (simp add: create_def)
next
  case False
  obtain res p' where run:
    "unwrapAll (the (textureCount s)) (the (textureDictionary s))
       (map_keys (blockCounts s)) [] p = (res, p')"
    by (cases "unwrapAll (the (textureCount s)) (the (textureDictionary s))
       (map_keys (blockCounts s)) [] p")
  show ?thesis
  proof (cases res)
    case (Inl e)
    with False run assms show ?thesis by (simp add: create_def)
  next
    case (Inr typeToUV)
    with False run assms
    have "r = \<lparr>meshes = makeMeshes s typeToUV,
               matrices = writes (scan s (makeMeshes s typeToUV))\<rparr>"
      by (simp add: create_def Let_def)
    then show ?thesis by blast
  qed
qed

subsection \<open>The order of the scan\<close>

text \<open>
  The loops of the scan run \<open>x\<close> outermost and \<open>z\<close> innermost, and \<^verbatim>\<open>index\<close> grows by one
  per cell: every write of the scan is made at the index \<open>(x * sizeY + y) * sizeZ + z\<close> of
  its position \<open>(x, y, z)\<close>.
\<close>

lemma fold_upt_inv:
  assumes "P 0 st" and "\<And>i st. i < k \<Longrightarrow> P i st \<Longrightarrow> P (Suc i) (f i st)"
  shows "P k (fold f [0..<k] st)"
  using assms(2)
proof (induction k)
  case 0
  from assms(1) show ?case by simp
next
  case (Suc k)
  have "P k (fold f [0..<k] st)"
    by (rule Suc.IH) (simp add: Suc.prems)
  then have "P (Suc k) (f k (fold f [0..<k] st))"
    by (rule Suc.prems [OF lessI])
  then show ?case by simp
qed

lemma scanCell_in_order:
  assumes "writes_in_order s st" and "index st = scan_index_at s x y z"
  shows "writes_in_order s (scanCell s ms x y z st)
         \<and> index (scanCell s ms x y z st) = scan_index_at s x y (Suc z)"
proof -
  have idx: "index (scanCell s ms x y z st) = Suc (index st)"
    by (simp add: scanCell_def Let_def split: option.splits)
  have "writes (scanCell s ms x y z st) = writes st
        \<or> (\<exists>t k. writes (scanCell s ms x y z st)
              = writes st @ [\<lparr>w_index = index st, w_type = t, w_slot = k,
                               w_position = (int x, int y, int z)\<rparr>])"
    by (simp add: scanCell_def Let_def split: option.splits)
  with assms have "writes_in_order s (scanCell s ms x y z st)"
    by (auto simp: writes_in_order_def)
  with idx assms(2) show ?thesis
    by (simp add: scan_index_at_def)
qed

lemma z_loop_in_order:
  assumes "writes_in_order s st" and "index st = scan_index_at s x y 0"
  shows "writes_in_order s (fold (\<lambda>z. scanCell s ms x y z) [0..<nat (sizeZ s)] st)
         \<and> index (fold (\<lambda>z. scanCell s ms x y z) [0..<nat (sizeZ s)] st)
             = scan_index_at s x (Suc y) 0"
proof -
  have "writes_in_order s (fold (\<lambda>z. scanCell s ms x y z) [0..<nat (sizeZ s)] st)
        \<and> index (fold (\<lambda>z. scanCell s ms x y z) [0..<nat (sizeZ s)] st)
            = scan_index_at s x y (nat (sizeZ s))"
    by (rule fold_upt_inv
          [where P = "\<lambda>z st. writes_in_order s st \<and> index st = scan_index_at s x y z"])
       (simp_all add: assms scanCell_in_order)
  then show ?thesis by (simp add: scan_index_at_def)
qed

lemma y_loop_in_order:
  assumes "writes_in_order s st" and "index st = scan_index_at s x 0 0"
  shows "writes_in_order s
           (fold (\<lambda>y. fold (\<lambda>z. scanCell s ms x y z) [0..<nat (sizeZ s)])
              [0..<nat (sizeY s)] st)
         \<and> index (fold (\<lambda>y. fold (\<lambda>z. scanCell s ms x y z) [0..<nat (sizeZ s)])
              [0..<nat (sizeY s)] st)
             = scan_index_at s (Suc x) 0 0"
proof -
  have "writes_in_order s
           (fold (\<lambda>y. fold (\<lambda>z. scanCell s ms x y z) [0..<nat (sizeZ s)])
              [0..<nat (sizeY s)] st)
        \<and> index (fold (\<lambda>y. fold (\<lambda>z. scanCell s ms x y z) [0..<nat (sizeZ s)])
              [0..<nat (sizeY s)] st)
            = scan_index_at s x (nat (sizeY s)) 0"
    by (rule fold_upt_inv
          [where P = "\<lambda>y st. writes_in_order s st \<and> index st = scan_index_at s x y 0"])
       (simp_all add: assms z_loop_in_order)
  then show ?thesis by (simp add: scan_index_at_def)
qed

lemma scan_in_order: "writes_in_order s (scan s ms)"
proof -
  let ?init = "\<lparr>index = 0, blockIndexes = [], writes = []\<rparr>"
  have init: "writes_in_order s ?init \<and> index ?init = scan_index_at s 0 0 0"
    by (simp add: writes_in_order_def scan_index_at_def)
  have step: "\<And>x st. writes_in_order s st \<and> index st = scan_index_at s x 0 0 \<Longrightarrow>
      writes_in_order s
        (fold (\<lambda>y. fold (\<lambda>z. scanCell s ms x y z) [0..<nat (sizeZ s)]) [0..<nat (sizeY s)] st)
      \<and> index (fold (\<lambda>y. fold (\<lambda>z. scanCell s ms x y z) [0..<nat (sizeZ s)])
                 [0..<nat (sizeY s)] st)
          = scan_index_at s (Suc x) 0 0"
    by (simp add: y_loop_in_order)
  have "writes_in_order s (scan s ms)
        \<and> index (scan s ms) = scan_index_at s (nat (sizeX s)) 0 0"
    unfolding scan_def
    by (rule fold_upt_inv
          [where P = "\<lambda>x st. writes_in_order s st \<and> index st = scan_index_at s x 0 0"])
       (rule init, rule step)
  then show ?thesis by simp
qed

lemma create_scan_index:
  assumes "fst (create s p) = Inr r" and "w \<in> set (matrices r)"
    and "w_position w = (int x, int y, int z)"
  shows "w_index w = (x * nat (sizeY s) + y) * nat (sizeZ s) + z"
proof -
  from create_result [OF assms(1)] obtain ms where "matrices r = writes (scan s ms)"
    by auto
  with assms(2) scan_in_order [of s ms] assms(3) show ?thesis
    by (simp add: writes_in_order_def scan_index_at_def)
qed

text \<open>
  Claim C1 says that the scan of \<^verbatim>\<open>create\<close> meets the cell of \<^verbatim>\<open>setBlock(t, x, y, z)\<close> at
  the loop coordinates \<open>(x, y, z)\<close>. \<^verbatim>\<open>getSchematicLocation\<close> (marked "todo: might be wrong"
  in the source) puts \<open>x\<close> in the lowest place, the loops of the scan have \<open>z\<close> innermost. On
  a 2 x 2 x 1 grid \<^verbatim>\<open>setBlock(5, 1, 0, 0)\<close> writes the flat index 1, and the scan reaches
  the index 1 at the loop coordinates \<open>(0, 1, 0)\<close>: the one instance of type 5 gets the
  position \<open>(0, 1, 0)\<close>.
\<close>

theorem scan_misplaces_block:
  "all_succeed [SetBlock 5 1 0 0] (new_schematic 2 2 1)
   \<and> getSchematicLocation (new_schematic 2 2 1) 1 0 0 = 1
   \<and> schematic (built_grid 2 2 1 [SetBlock 5 1 0 0] ''atlas'' 1 [5 \<mapsto> [(''all'', 0)]])
       = [None, Some 5]
   \<and> fst (create (built_grid 2 2 1 [SetBlock 5 1 0 0] ''atlas'' 1 [5 \<mapsto> [(''all'', 0)]])
             new_placer)
       = Inr \<lparr>meshes = [(5, \<lparr>uv = computeUVs 1 [(''all'', 0)], count = Some (Num 1)\<rparr>)],
              matrices = [\<lparr>w_index = 1, w_type = 5, w_slot = 0, w_position = (0, 1, 0)\<rparr>]\<rparr>"
  by (simp add: grid_eval create_eval)

subsection \<open>Slots and instance counts\<close>

lemma count_list_update_le:
  "count_list (xs[i := y]) x \<le> count_list xs x + (if x = y then 1 else 0)"
proof (induction xs arbitrary: i)
  case Nil
  then show ?case by simp
next
  case (Cons a xs)
  show ?case
  proof (cases i)
    case 0
    then show ?thesis by simp
  next
    case (Suc j)
    with Cons.IH [of j] show ?thesis by simp
  qed
qed

lemma count_list_holes: "count_list (replicate k None) (Some t) = 0"
  by (induction k) simp_all

lemma count_list_array_set:
  "count_list (array_set a i v) (Some t) \<le> count_list a (Some t) + (if t = v then 1 else 0)"
proof (cases "i < length a")
  case True
  with count_list_update_le [of a i "Some v" "Some t"] show ?thesis
    by (simp add: array_set_def)
next
  case False
  then show ?thesis
    by (simp add: array_set_def count_list_holes)
qed

lemma count_list_take_le: "count_list (take i xs) x \<le> count_list xs x"
proof -
  have "count_list xs x = count_list (take i xs) x + count_list (drop i xs) x"
    by (metis append_take_drop_id count_list_append)
  then show ?thesis by simp
qed

lemma do_call_cells:
  "count_list (schematic (snd (do_call c s))) (Some t)
     \<le> count_list (schematic s) (Some t) + (if t = call_type c then 1 else 0)"
proof (cases c)
  case (SetBlock v x y z)
  with count_list_array_set [of "schematic s" "nat (getSchematicLocation s x y z)" v t]
  show ?thesis
    by (auto simp: setBlock_def Let_def getSchematicLocation_def split: if_splits)
next
  case (PushBlock v)
  then show ?thesis
    by (simp add: pushBlock_def Let_def)
qed

lemma do_call_keeps_cover:
  assumes "counts_cover s"
  shows "counts_cover (snd (do_call c s))"
  unfolding counts_cover_def
proof (intro allI impI)
  fix t :: int
  assume nz: "t \<noteq> 0"
  let ?s' = "snd (do_call c s)"
  from assms nz have before:
    "(map_get t (blockCounts s) = None \<and> count_list (schematic s) (Some t) = 0)
     \<or> (\<exists>n. map_get t (blockCounts s) = Some (Num n)
             \<and> int (count_list (schematic s) (Some t)) \<le> n)"
    by (simp add: counts_cover_def)
  show "(map_get t (blockCounts ?s') = None \<and> count_list (schematic ?s') (Some t) = 0)
        \<or> (\<exists>n. map_get t (blockCounts ?s') = Some (Num n)
                \<and> int (count_list (schematic ?s') (Some t)) \<le> n)"
  proof (cases "call_type c = t")
    case True
    with nz have after: "map_get t (blockCounts ?s')
        = Some (case map_get t (blockCounts s) of None \<Rightarrow> Num 1 | Some c \<Rightarrow> plus1 (Some c))"
      by (simp add: do_call_counts countBlock_same)
    from do_call_cells [of c s t] True
    have cells: "count_list (schematic ?s') (Some t) \<le> count_list (schematic s) (Some t) + 1"
      by simp
    from before after cells show ?thesis by auto
  next
    case False
    then have after: "map_get t (blockCounts ?s') = map_get t (blockCounts s)"
      by (simp add: do_call_counts countBlock_other)
    from do_call_cells [of c s t] False
    have cells: "count_list (schematic ?s') (Some t) \<le> count_list (schematic s) (Some t)"
      by simp
    from before after cells show ?thesis by auto
  qed
qed

lemma run_calls_keeps_cover: "counts_cover s \<Longrightarrow> counts_cover (run_calls cs s)"
  by (induction cs arbitrary: s) (simp_all add: do_call_keeps_cover)

lemma built_grid_cover: "counts_cover (built_grid sx sy sz cs texture n dict)"
proof -
  have "counts_cover (new_schematic sx sy sz)"
    by (simp add: counts_cover_def new_schematic_def map_get_def)
  then have "counts_cover (run_calls cs (new_schematic sx sy sz))"
    by (rule run_calls_keeps_cover)
  then show ?thesis
    by (simp add: counts_cover_def built_grid_def setTextureData_def)
qed

lemma count_list_take_Suc:
  "count_list (take (Suc i) cells) (Some t)
     = count_list (take i cells) (Some t) + (if array_get cells i = Some t then 1 else 0)"
proof (cases "i < length cells")
  case True
  then have "take (Suc i) cells = take i cells @ [cells ! i]"
    by (rule take_Suc_conv_app_nth)
  with True show ?thesis by (simp add: array_get_def)
next
  case False
  then show ?thesis by (simp add: array_get_def)
qed

lemma scanCell_keeps_inv:
  assumes "scan_inv (schematic s) ms st"
  shows "scan_inv (schematic s) ms (scanCell s ms x y z st)"
proof -
  let ?cells = "schematic s"
  let ?i = "index st"
  from assms have slots: "\<And>t. map_get t ms \<noteq> None \<Longrightarrow>
      next_slot (blockIndexes st) t = count_list (take ?i ?cells) (Some t)"
    and old: "\<And>w. w \<in> set (writes st) \<Longrightarrow>
      map_get (w_type w) ms \<noteq> None \<and> w_slot w < count_list (take ?i ?cells) (Some (w_type w))"
    by (simp_all add: scan_inv_def)
  have mono: "\<And>t. count_list (take ?i ?cells) (Some t) \<le> count_list (take (Suc ?i) ?cells) (Some t)"
    by (simp add: count_list_take_Suc)
  show ?thesis
  proof (cases "array_get ?cells ?i")
    case None
    then have st': "scanCell s ms x y z st = st\<lparr>index := Suc ?i\<rparr>"
      by (simp add: scanCell_def)
    from None have same: "\<And>t. count_list (take (Suc ?i) ?cells) (Some t)
        = count_list (take ?i ?cells) (Some t)"
      by (simp add: count_list_take_Suc)
    from slots old show ?thesis
      unfolding st' scan_inv_def by (simp add: same)
  next
    case (Some b)
    show ?thesis
    proof (cases "map_get b ms")
      case None
      with Some have st': "scanCell s ms x y z st = st\<lparr>index := Suc ?i\<rparr>"
        by (simp add: scanCell_def)
      from Some None have same: "\<And>t. map_get t ms \<noteq> None \<Longrightarrow>
          count_list (take (Suc ?i) ?cells) (Some t) = count_list (take ?i ?cells) (Some t)"
        by (auto simp: count_list_take_Suc)
      from slots old show ?thesis
        unfolding st' scan_inv_def by (simp add: same)
    next
      case mesh: (Some m)
      let ?cur = "next_slot (blockIndexes st) b"
      let ?w = "\<lparr>w_index = ?i, w_type = b, w_slot = ?cur, w_position = (int x, int y, int z)\<rparr>"
      from Some mesh have st': "scanCell s ms x y z st
          = st\<lparr>writes := writes st @ [?w],
                blockIndexes := map_set b (?cur + 1) (blockIndexes st), index := Suc ?i\<rparr>"
        by (simp add: scanCell_def Let_def next_slot_def)
      from mesh have cur: "?cur = count_list (take ?i ?cells) (Some b)"
        by (simp add: slots)
      from Some have step: "\<And>t. count_list (take (Suc ?i) ?cells) (Some t)
          = count_list (take ?i ?cells) (Some t) + (if t = b then 1 else 0)"
        by (auto simp: count_list_take_Suc)
      have new_slots: "\<And>t. map_get t ms \<noteq> None \<Longrightarrow>
          next_slot (map_set b (?cur + 1) (blockIndexes st)) t
            = count_list (take (Suc ?i) ?cells) (Some t)"
      proof -
        fix t assume t: "map_get t ms \<noteq> None"
        show "next_slot (map_set b (?cur + 1) (blockIndexes st)) t
            = count_list (take (Suc ?i) ?cells) (Some t)"
        proof (cases "t = b")
          case True
          with cur step [of b] show ?thesis
            by (simp add: next_slot_def map_get_map_set)
        next
          case False
          with slots [OF t] step [of t] show ?thesis
            by (simp add: next_slot_def map_get_map_set)
        qed
      qed
      have new_writes: "\<And>w. w \<in> set (writes st @ [?w]) \<Longrightarrow>
          map_get (w_type w) ms \<noteq> None
          \<and> w_slot w < count_list (take (Suc ?i) ?cells) (Some (w_type w))"
      proof -
        fix w assume "w \<in> set (writes st @ [?w])"
        then consider "w \<in> set (writes st)" | "w = ?w" by auto
        then show "map_get (w_type w) ms \<noteq> None
          \<and> w_slot w < count_list (take (Suc ?i) ?cells) (Some (w_type w))"
        proof cases
          case 1
          from old [OF 1] mono [of "w_type w"] show ?thesis by simp
        next
          case 2
          with mesh cur step [of b] show ?thesis by simp
        qed
      qed
      from new_slots new_writes show ?thesis
        unfolding st' scan_inv_def by simp
    qed
  qed
qed

lemma fold_keeps:
  assumes "\<And>a st. P st \<Longrightarrow> P (f a st)"
  shows "P st \<Longrightarrow> P (fold f xs st)"
  by (induction xs arbitrary: st) (simp_all add: assms)

lemma scan_inv_scan: "scan_inv (schematic s) ms (scan s ms)"
proof -
  have init: "scan_inv (schematic s) ms \<lparr>index = 0, blockIndexes = [], writes = []\<rparr>"
    by (simp add: scan_inv_def next_slot_def map_get_def)
  have zs: "\<And>x y st. scan_inv (schematic s) ms st \<Longrightarrow>
      scan_inv (schematic s) ms (fold (\<lambda>z. scanCell s ms x y z) [0..<nat (sizeZ s)] st)"
    by (rule fold_keeps) (rule scanCell_keeps_inv)
  have ys: "\<And>x st. scan_inv (schematic s) ms st \<Longrightarrow>
      scan_inv (schematic s) ms
        (fold (\<lambda>y. fold (\<lambda>z. scanCell s ms x y z) [0..<nat (sizeZ s)]) [0..<nat (sizeY s)] st)"
    by (rule fold_keeps) (rule zs)
  have "scan_inv (schematic s) ms
      (fold (\<lambda>x. fold (\<lambda>y. fold (\<lambda>z. scanCell s ms x y z) [0..<nat (sizeZ s)])
                       [0..<nat (sizeY s)]) [0..<nat (sizeX s)]
         \<lparr>index = 0, blockIndexes = [], writes = []\<rparr>)"
    by (rule fold_keeps [where P = "scan_inv (schematic s) ms", OF ys init])
  then show ?thesis by (simp add: scan_def)
qed

text \<open>
  For the nonzero block types the writes of the scan stay inside the instance buffers, on
  every grid whose counts cover its cells, and so on every grid built by the public
  methods: a write for the type \<open>t\<close> goes to the mesh of \<open>t\<close>, into a slot below the instance
  count of that mesh, and the cells holding \<open>t\<close> are at most as many as that count.
\<close>

lemma scan_slots_in_range:
  assumes cover: "counts_cover s"
    and ok: "fst (create s p) = Inr r"
    and w: "w \<in> set (matrices r)"
    and nz: "w_type w \<noteq> 0"
  shows "\<exists>mesh n. map_get (w_type w) (meshes r) = Some mesh
           \<and> count mesh = Some (Num n)
           \<and> int (w_slot w) < n
           \<and> int (count_list (schematic s) (Some (w_type w))) \<le> n"
proof -
  from create_result [OF ok] obtain typeToUV where
    r: "r = \<lparr>meshes = makeMeshes s typeToUV,
             matrices = writes (scan s (makeMeshes s typeToUV))\<rparr>"
    by blast
  let ?ms = "makeMeshes s typeToUV"
  let ?t = "w_type w"
  from w r have "w \<in> set (writes (scan s ?ms))" by simp
  with scan_inv_scan [of s ?ms]
  have has: "map_get ?t ?ms \<noteq> None"
    and slot: "w_slot w < count_list (take (index (scan s ?ms)) (schematic s)) (Some ?t)"
    by (simp_all add: scan_inv_def)
  from slot count_list_take_le [of "index (scan s ?ms)" "schematic s" "Some ?t"]
  have below: "w_slot w < count_list (schematic s) (Some ?t)"
    by simp
  with cover nz obtain n where
    n: "map_get ?t (blockCounts s) = Some (Num n)"
    and le: "int (count_list (schematic s) (Some ?t)) \<le> n"
  proof -
    from cover nz have
      "(map_get ?t (blockCounts s) = None \<and> count_list (schematic s) (Some ?t) = 0)
       \<or> (\<exists>n. map_get ?t (blockCounts s) = Some (Num n)
               \<and> int (count_list (schematic s) (Some ?t)) \<le> n)"
      by (simp add: counts_cover_def)
    with below that show ?thesis by auto
  qed
  from has have "map_get ?t ?ms
      = Some \<lparr>uv = the (map_get ?t typeToUV), count = map_get ?t (blockCounts s)\<rparr>"
    by (simp add: map_get_makeMeshes split: if_splits)
  with r n le below show ?thesis by simp
qed

lemma built_grid_slots_in_range:
  assumes "fst (create (built_grid sx sy sz cs texture n dict) p) = Inr r"
    and "w \<in> set (matrices r)" and "w_type w \<noteq> 0"
  shows "\<exists>mesh k. map_get (w_type w) (meshes r) = Some mesh
           \<and> count mesh = Some (Num k)
           \<and> slot_in_range (w_slot w) (count mesh)
           \<and> int (count_list (schematic (built_grid sx sy sz cs texture n dict))
                    (Some (w_type w))) \<le> k"
  using scan_slots_in_range [OF built_grid_cover assms] by auto

text \<open>
  Claim C9 says that no write of the scan goes past the instance buffer of its mesh. The
  count that \<^verbatim>\<open>setBlock\<close> and \<^verbatim>\<open>pushBlock\<close> keep for type 0 is \<^verbatim>\<open>NaN\<close>; when the
  dictionary gives type 0 a face mapping, its mesh is made with the instance count \<^verbatim>\<open>NaN\<close>,
  and the scan writes its slot 0, which is not below that count.
\<close>

theorem air_batch_has_no_room:
  "all_succeed [SetBlock 0 0 0 0] (new_schematic 1 1 1)
   \<and> fst (create (built_grid 1 1 1 [SetBlock 0 0 0 0] ''atlas'' 1 [0 \<mapsto> [(''all'', 0)]])
             new_placer)
       = Inr \<lparr>meshes = [(0, \<lparr>uv = computeUVs 1 [(''all'', 0)], count = Some NaN\<rparr>)],
              matrices = [\<lparr>w_index = 0, w_type = 0, w_slot = 0, w_position = (0, 0, 0)\<rparr>]\<rparr>
   \<and> \<not> slot_in_range 0 (Some NaN)"
  by (simp add: grid_eval create_eval)

end
